theory Spec2Isabelle
  imports Main
begin

section \<open>Common ground: exceptions and the instruction-set description\<close>

text \<open>
  Both source files raise Python exceptions; the model returns them as values
  (\<open>Inl\<close> of a sum, or \<open>Some\<close> in a raised-exception slot).
\<close>

datatype error =
    TypeError
  | ValueError
  | KeyError
  | IndexError
  | AssertionError
  | StructError

text \<open>
  The \<open>opcode\<close> and \<open>dis\<close> modules and \<open>sys.version_info\<close> are supplied by the
  host interpreter. They are taken as a parameter: \<open>opmap\<close> is the name-to-code dictionary,
  \<open>opname\<close> the 256-entry code-to-name list, the \<open>has*\<close> fields are the opcode lists,
  \<open>py311\<close> is the test \<open>sys.version_info >= (3, 11)\<close>, \<open>dis_stack_effect\<close> is
  \<open>dis.stack_effect(opcode, oparg, jump=...)\<close>, which may raise, and \<open>findlinestarts\<close> is
  \<open>dis.findlinestarts\<close>, the pairs of an offset and the line starting there.
\<close>

text \<open>
  The fields of a code object that the program reads or writes; the remaining ones are
  handed through unchanged and are left out.
\<close>

record code_obj =
  co_code :: "nat list"
  co_firstlineno :: int
  co_lnotab :: "nat list"

record opcode_module =
  opmap :: "(string \<times> nat) list"
  opname :: "nat \<Rightarrow> string"
  HAVE_ARGUMENT :: nat
  hasjrel :: "nat list"
  hasjabs :: "nat list"
  hasfree :: "nat list"
  haslocal :: "nat list"
  hasname :: "nat list"
  hasconst :: "nat list"
  hascompare :: "nat list"
  py311 :: bool
  dis_stack_effect :: "nat \<Rightarrow> int option \<Rightarrow> bool option \<Rightarrow> error + int"
  findlinestarts :: "code_obj \<Rightarrow> (nat \<times> int) list"

section \<open>instr.py: operands and instruction validation\<close>

text \<open>
  The Python values an instruction argument can be. \<open>UNSET\<close> is the singleton marking an
  absent argument; \<open>PyBool\<close> and \<open>CompareArg\<close> are instances of \<open>int\<close> as well
  (\<open>bool\<close> and \<open>IntEnum\<close> derive from it); \<open>PyOther\<close> stands for any other object
  (\<open>None\<close>, a float, bytes, ...), told apart by a number.
\<close>

text \<open>The members of the \<open>Compare\<close> enumeration (\<open>IN\<close> to \<open>EXC_MATCH\<close> exist before 3.9).\<close>

datatype compare = LT | LE | EQ | NE | GT | GE | IN | NOT_IN | IS | IS_NOT | EXC_MATCH

fun compare_value :: "compare \<Rightarrow> int" where
  "compare_value LT = 0"
| "compare_value LE = 1"
| "compare_value EQ = 2"
| "compare_value NE = 3"
| "compare_value GT = 4"
| "compare_value GE = 5"
| "compare_value IN = 6"
| "compare_value NOT_IN = 7"
| "compare_value IS = 8"
| "compare_value IS_NOT = 9"
| "compare_value EXC_MATCH = 10"

fun compare_name :: "compare \<Rightarrow> string" where
  "compare_name LT = ''LT''"
| "compare_name LE = ''LE''"
| "compare_name EQ = ''EQ''"
| "compare_name NE = ''NE''"
| "compare_name GT = ''GT''"
| "compare_name GE = ''GE''"
| "compare_name IN = ''IN''"
| "compare_name NOT_IN = ''NOT_IN''"
| "compare_name IS = ''IS''"
| "compare_name IS_NOT = ''IS_NOT''"
| "compare_name EXC_MATCH = ''EXC_MATCH''"

datatype operand =
    UNSET
  | PyInt int
  | PyBool bool
  | PyStr string
  | PyTuple "operand list"
  | LabelArg nat
  | BasicBlockArg nat
  | CellVar string
  | FreeVar string
  | CompareArg compare
  | PyOther nat

text \<open>
  The integer value of an instance of \<open>int\<close> whose arithmetic is the one of \<open>int\<close>: a
  plain integer, a \<open>bool\<close> or a \<open>Compare\<close> member.
\<close>

fun as_int :: "operand \<Rightarrow> int option" where
  "as_int (PyInt n) = Some n"
| "as_int (PyBool b) = Some (if b then 1 else 0)"
| "as_int (CompareArg c) = Some (compare_value c)"
| "as_int _ = None"

text \<open>
  \<open>isinstance(arg, int)\<close>, with the value that \<open>int\<close> itself sees. \<open>UNSET\<close> is an
  instance of \<open>int\<close> too (\<open>class _UNSET(int)\<close>, made without a value, so 0): its own
  comparison and \<open>__index__\<close> methods return \<open>NotImplemented\<close>, and then the comparison
  of \<open>int\<close> with the operands swapped, list indexing and the conversion of an \<open>oparg\<close>
  read the value 0.
\<close>

fun int_value :: "operand \<Rightarrow> int option" where
  "int_value UNSET = Some 0"
| "int_value a = as_int a"

fun is_label_or_block :: "operand \<Rightarrow> bool" where
  "is_label_or_block (LabelArg _) = True"
| "is_label_or_block (BasicBlockArg _) = True"
| "is_label_or_block _ = False"

fun is_cell_or_free :: "operand \<Rightarrow> bool" where
  "is_cell_or_free (CellVar _) = True"
| "is_cell_or_free (FreeVar _) = True"
| "is_cell_or_free _ = False"

fun is_str :: "operand \<Rightarrow> bool" where
  "is_str (PyStr _) = True"
| "is_str _ = False"

fun is_compare :: "operand \<Rightarrow> bool" where
  "is_compare (CompareArg _) = True"
| "is_compare _ = False"

text \<open>
  \<open>isinstance(arg, tuple) and len(arg) == 2 and isinstance(arg[0], bool) and
  isinstance(arg[1], str)\<close>
\<close>

fun is_bool_str_pair :: "operand \<Rightarrow> bool" where
  "is_bool_str_pair (PyTuple [PyBool _, PyStr _]) = True"
| "is_bool_str_pair _ = False"

text \<open>\<open>_check_arg_int\<close>: the exception it raises, or \<open>None\<close> when it returns.\<close>

definition check_arg_int :: "operand \<Rightarrow> error option" where
  "check_arg_int a =
     (case int_value a of
        None \<Rightarrow> Some TypeError
      | Some n \<Rightarrow> if \<not> (0 \<le> n \<and> n \<le> 2147483647) then Some ValueError else None)"

definition has_jump :: "opcode_module \<Rightarrow> nat \<Rightarrow> bool" where
  "has_jump M opc = (opc \<in> set (hasjrel M) \<or> opc \<in> set (hasjabs M))"

text \<open>
  \<open>Instr._check_arg\<close>, statement by statement: the arity test first, then the
  \<open>if/elif\<close> chain over the operand categories in the source's order.
\<close>

definition check_arg :: "opcode_module \<Rightarrow> string \<Rightarrow> nat \<Rightarrow> operand \<Rightarrow> error option" where
  "check_arg M nm opc a =
     (if nm = ''EXTENDED_ARG'' then Some ValueError
      else if opc \<ge> HAVE_ARGUMENT M \<and> a = UNSET then Some ValueError
      else if \<not> opc \<ge> HAVE_ARGUMENT M \<and> a \<noteq> UNSET then Some ValueError
      else if has_jump M opc then
        (if \<not> is_label_or_block a then Some TypeError else None)
      else if opc \<in> set (hasfree M) then
        (if \<not> is_cell_or_free a then Some TypeError else None)
      else if opc \<in> set (haslocal M) \<or> opc \<in> set (hasname M) then
        (if py311 M \<and> nm = ''LOAD_GLOBAL'' then
           (if \<not> is_bool_str_pair a then Some TypeError else None)
         else if \<not> is_str a then Some TypeError else None)
      else if opc \<in> set (hasconst M) then
        (case a of LabelArg _ \<Rightarrow> Some ValueError
                 | BasicBlockArg _ \<Rightarrow> Some ValueError
                 | _ \<Rightarrow> None)
      else if opc \<in> set (hascompare M) then
        (if \<not> is_compare a then Some TypeError else None)
      else if opc \<ge> HAVE_ARGUMENT M then check_arg_int a
      else None)"

text \<open>
  An instruction object: the slots \<open>_name\<close>, \<open>_opcode\<close>, \<open>_arg\<close> and \<open>_location\<close>.
\<close>

record InstrLocation =
  lineno :: "int option"
  end_lineno :: "int option"
  col_offset :: "int option"
  end_col_offset :: "int option"

record instr =
  iname :: string
  iopcode :: nat
  iarg :: operand
  ilocation :: "InstrLocation option"

text \<open>
  The mutators run on an instruction object and either raise or return; the model returns
  the exception raised (if any) together with the object as the call leaves it.
  \<open>BaseInstr._set\<close>: the name is any Python value, tested with \<open>isinstance(name, str)\<close>.
\<close>

definition set_private :: "opcode_module \<Rightarrow> instr \<Rightarrow> operand \<Rightarrow> operand \<Rightarrow> error option \<times> instr" where
  "set_private M i nm a =
     (case nm of
        PyStr s \<Rightarrow>
          (case map_of (opmap M) s of
             None \<Rightarrow> (Some ValueError, i)
           | Some opc \<Rightarrow>
               (case check_arg M s opc a of
                  Some e \<Rightarrow> (Some e, i)
                | None \<Rightarrow> (None, i\<lparr>iname := s, iopcode := opc, iarg := a\<rparr>)))
      | _ \<Rightarrow> (Some TypeError, i))"

text \<open>\<open>BaseInstr.set\<close> and the \<open>name\<close> and \<open>arg\<close> property setters.\<close>

definition set_instr :: "opcode_module \<Rightarrow> instr \<Rightarrow> operand \<Rightarrow> operand \<Rightarrow> error option \<times> instr" where
  "set_instr M i nm a = set_private M i nm a"

definition name_setter :: "opcode_module \<Rightarrow> instr \<Rightarrow> operand \<Rightarrow> error option \<times> instr" where
  "name_setter M i nm = set_private M i nm (iarg i)"

definition arg_setter :: "opcode_module \<Rightarrow> instr \<Rightarrow> operand \<Rightarrow> error option \<times> instr" where
  "arg_setter M i a = set_private M i (PyStr (iname i)) a"

text \<open>\<open>_check_location\<close> and the constructor of \<open>InstrLocation\<close>, with its checks in order.\<close>

definition check_location :: "int option \<Rightarrow> int \<Rightarrow> error option" where
  "check_location loc min_value =
     (case loc of None \<Rightarrow> None
      | Some l \<Rightarrow> if l < min_value then Some ValueError else None)"

definition InstrLocation_init ::
  "opcode_module \<Rightarrow> int option \<Rightarrow> int option \<Rightarrow> int option \<Rightarrow> int option
     \<Rightarrow> error + InstrLocation" where
  "InstrLocation_init M ln eln col ecol =
     (if check_location ln (if py311 M then 0 else 1) \<noteq> None then Inl ValueError
      else if check_location eln 1 \<noteq> None then Inl ValueError
      else if check_location col 0 \<noteq> None then Inl ValueError
      else if check_location ecol 0 \<noteq> None then Inl ValueError
      else if (eln \<noteq> None \<and> eln \<noteq> Some 0) \<and> ln = None then Inl ValueError
      else if (eln \<noteq> None \<and> eln \<noteq> Some 0) \<and> the ln > the eln then Inl ValueError
      else if (col \<noteq> None \<or> ecol \<noteq> None) \<and> (ln = None \<or> eln = None) then Inl ValueError
      else if (col \<noteq> None \<or> ecol \<noteq> None) \<and> ecol = None then Inl ValueError
      else if (col \<noteq> None \<or> ecol \<noteq> None) \<and> col = None then Inl ValueError
      else if (col \<noteq> None \<or> ecol \<noteq> None) \<and> the col > the ecol then Inl ValueError
      else Inr \<lparr> lineno = ln, end_lineno = eln, col_offset = col, end_col_offset = ecol \<rparr>)"

text \<open>
  The \<open>lineno\<close> keyword of the constructor: left at its default \<open>UNSET\<close>, or a value
  (\<open>None\<close> or an integer).
\<close>

datatype lineno_arg = LinenoUnset | LinenoValue "int option"

text \<open>
  \<open>BaseInstr.__init__\<close>: \<open>_set\<close> runs on the new object, whose slots are still empty,
  and the location is stored afterwards.
\<close>

definition empty_slots :: instr where
  "empty_slots = \<lparr> iname = [], iopcode = 0, iarg = UNSET, ilocation = None \<rparr>"

definition Instr_init ::
  "opcode_module \<Rightarrow> operand \<Rightarrow> operand \<Rightarrow> lineno_arg \<Rightarrow> InstrLocation option \<Rightarrow> error + instr" where
  "Instr_init M nm a ln location =
     (case set_private M empty_slots nm a of
        (Some e, _) \<Rightarrow> Inl e
      | (None, i) \<Rightarrow>
          (case location of
             Some loc \<Rightarrow> Inr (i\<lparr>ilocation := Some loc\<rparr>)
           | None \<Rightarrow>
               (case ln of
                  LinenoUnset \<Rightarrow> Inr (i\<lparr>ilocation := None\<rparr>)
                | LinenoValue l \<Rightarrow>
                    (case InstrLocation_init M l None None None of
                       Inl e \<Rightarrow> Inl e
                     | Inr loc \<Rightarrow> Inr (i\<lparr>ilocation := Some loc\<rparr>)))))"

text \<open>Decimal digits of a natural number, for \<open>"<%r>" % op\<close>.\<close>

fun digits :: "nat \<Rightarrow> string" where
  "digits n =
     (if n < 10 then [char_of (48 + n)]
      else digits (n div 10) @ [char_of (48 + n mod 10)])"

text \<open>
  \<open>repr\<close> of an instance of \<open>int\<close> that lies in \<open>0..255\<close>: a plain integer prints its
  digits, a \<open>bool\<close> its name, a \<open>Compare\<close> member as \<open><Compare.LT: 0>\<close>, and
  \<open>UNSET\<close>, which inherits \<open>__repr__\<close> from \<open>int\<close>, prints \<open>0\<close>.
\<close>

fun repr_small_int :: "operand \<Rightarrow> string" where
  "repr_small_int (PyInt n) = digits (nat n)"
| "repr_small_int UNSET = ''0''"
| "repr_small_int (PyBool b) = (if b then ''True'' else ''False'')"
| "repr_small_int (CompareArg c) =
     ''<Compare.'' @ compare_name c @ '': '' @ digits (nat (compare_value c)) @ ''>''"
| "repr_small_int _ = []"

text \<open>
  The \<open>opcode\<close> property setter. \<open>UNSET\<close> passes \<open>isinstance(op, int)\<close> and the range
  test as 0, and \<open>opname[op]\<close> reads entry 0.
\<close>

definition opcode_setter :: "opcode_module \<Rightarrow> instr \<Rightarrow> operand \<Rightarrow> error option \<times> instr" where
  "opcode_setter M i opv =
     (case int_value opv of
        None \<Rightarrow> (Some TypeError, i)
      | Some n \<Rightarrow>
          if 0 \<le> n \<and> n \<le> 255 then
            (let nm = opname M (nat n);
                 valid = (nm \<noteq> ''<'' @ repr_small_int opv @ ''>'')
             in if \<not> valid then (Some ValueError, i)
                else set_private M i (PyStr nm) (iarg i))
          else (Some ValueError, i))"

section \<open>instr.py: stack effects\<close>

text \<open>\<open>isinstance(arg, int)\<close> alone.\<close>

definition isinstance_int :: "operand \<Rightarrow> bool" where
  "isinstance_int a = (int_value a \<noteq> None)"

fun is_tuple :: "operand \<Rightarrow> bool" where
  "is_tuple (PyTuple _) = True"
| "is_tuple _ = False"

text \<open>
  The value handed to \<open>dis.stack_effect\<close> as \<open>oparg\<close>; an object that is no instance of
  \<open>int\<close> (a non-integer first tuple component) makes the call raise \<open>TypeError\<close>.
\<close>

definition call_dis_stack_effect ::
  "opcode_module \<Rightarrow> nat \<Rightarrow> operand \<Rightarrow> bool option \<Rightarrow> error + int" where
  "call_dis_stack_effect M opc a jump =
     (case int_value a of
        None \<Rightarrow> Inl TypeError
      | Some n \<Rightarrow> dis_stack_effect M opc (Some n) jump)"

text \<open>\<open>BaseInstr.stack_effect\<close>.\<close>

definition stack_effect :: "opcode_module \<Rightarrow> instr \<Rightarrow> bool option \<Rightarrow> error + int" where
  "stack_effect M i jump =
     (if iopcode i < HAVE_ARGUMENT M then dis_stack_effect M (iopcode i) None jump
      else if iname i = ''LOAD_GLOBAL'' \<and> is_tuple (iarg i) then
        (case iarg i of
           PyTuple xs \<Rightarrow>
             if length xs \<noteq> 2 then Inl AssertionError
             else call_dis_stack_effect M (iopcode i) (xs ! 0) jump
         | _ \<Rightarrow> Inl AssertionError)
      else if \<not> isinstance_int (iarg i) \<or> iopcode i \<in> set (hasconst M) then
        dis_stack_effect M (iopcode i) (Some 0) jump
      else call_dis_stack_effect M (iopcode i) (iarg i) jump)"

text \<open>\<open>str.startswith\<close>.\<close>

definition startswith :: "string \<Rightarrow> string \<Rightarrow> bool" where
  "startswith s p = (take (length p) s = p)"

text \<open>
  \<open>STATIC_STACK_EFFECTS\<close>: the literal entries, then the two comprehensions over the names
  of \<open>opmap\<close>; a later entry of the dictionary display replaces an earlier one.
\<close>

definition STATIC_literal :: "opcode_module \<Rightarrow> (string \<times> (int \<times> int)) list" where
  "STATIC_literal M =
    [(''CALL'', (-2, 1)),
     (''ROT_TWO'', (-2, 2)),
     (''ROT_THRE'', (-3, 3)),
     (''ROT_FOUR'', (-4, 4)),
     (''DUP_TOP'', (-1, 2)),
     (''DUP_TOP_TWO'', (-2, 4)),
     (''GET_LEN'', (-1, 2)),
     (''GET_ITER'', (-1, 1)),
     (''GET_YIELD_FROM_ITER'', (-1, 1)),
     (''GET_AWAITABLE'', (-1, 1)),
     (''GET_AITER'', (-1, 1)),
     (''GET_ANEXT'', (-1, 2)),
     (''LIST_TO_TUPLE'', (-1, 1)),
     (''LIST_EXTEND'', (-2, 1)),
     (''SET_UPDATE'', (-2, 1)),
     (''DICT_UPDATE'', (-2, 1)),
     (''DICT_MERGE'', (-2, 1)),
     (''COMPARE_OP'', (-2, 1)),
     (''IS_OP'', (-2, 1)),
     (''CONTAINS_OP'', (-2, 1)),
     (''IMPORT_NAME'', (-2, 1)),
     (''LOAD_ATTR'', (-1, 1)),
     (''ASYNC_GEN_WRAP'', (-1, 1)),
     (''PUSH_EXC_INFO'', (-1, 2)),
     (''BEFORE_ASYNC_WITH'', (-1, 2)),
     (''IMPORT_FROM'', (-1, 2)),
     (''COPY_DICT_WITHOUT_KEYS'', (-2, 2)),
     (''WITH_EXCEPT_START'', if py311 M then (-4, 5) else (-7, 8)),
     (''MATCH_CLASS'', (-3, if py311 M then 1 else 2)),
     (''MATCH_MAPPING'', (-1, 2)),
     (''MATCH_SEQUENCE'', (-1, 2)),
     (''MATCH_KEYS'', (-2, if py311 M then 3 else 4)),
     (''CHECK_EXC_MATCH'', (-2, 2)),
     (''CHECK_EG_MATCH'', (-2, 2)),
     (''PREP_RERAISE_STAR'', (-2, 1))]"

definition in_opmap :: "opcode_module \<Rightarrow> string \<Rightarrow> bool" where
  "in_opmap M n = (map_of (opmap M) n \<noteq> None)"

definition STATIC_STACK_EFFECTS :: "opcode_module \<Rightarrow> string \<Rightarrow> (int \<times> int) option" where
  "STATIC_STACK_EFFECTS M n =
     (if in_opmap M n \<and> (startswith n ''BINARY_'' \<or> startswith n ''INPLACE_'') then Some (-2, 1)
      else if in_opmap M n \<and> startswith n ''UNARY_'' then Some (-1, 1)
      else map_of (STATIC_literal M) n)"

text \<open>
  \<open>DYNAMIC_STACK_EFFECTS\<close>: each entry is a function of the net effect, the argument and
  the jump flag. Arithmetic on an argument that is not an integer raises \<open>TypeError\<close>.
\<close>

definition with_int_arg :: "operand \<Rightarrow> (int \<Rightarrow> int \<times> int) \<Rightarrow> error + int \<times> int" where
  "with_int_arg a f = (case as_int a of None \<Rightarrow> Inl TypeError | Some n \<Rightarrow> Inr (f n))"

definition DYNAMIC_STACK_EFFECTS ::
  "opcode_module \<Rightarrow> string \<Rightarrow> (int \<Rightarrow> operand \<Rightarrow> bool option \<Rightarrow> error + int \<times> int) option" where
  "DYNAMIC_STACK_EFFECTS M n =
     (if n \<in> {''MAKE_FUNCTION'', ''CALL_FUNCTION'', ''CALL_FUNCTION_EX'', ''CALL_FUNCTION_KW'',
               ''CALL_METHOD''}
         \<or> (in_opmap M n \<and> startswith n ''BUILD_'')
      then Some (\<lambda>effect a jump. Inr (effect - 1, 1))
      else if n \<in> {''UNPACK_SEQUENCE'', ''UNPACK_EX''}
      then Some (\<lambda>effect a jump. Inr (-1, effect + 1))
      else if n = ''SWAP'' then Some (\<lambda>effect a jump. with_int_arg a (\<lambda>k. (- k, k)))
      else if n = ''COPY'' then Some (\<lambda>effect a jump. with_int_arg a (\<lambda>k. (- k, k + effect)))
      else if n = ''ROT_N'' then Some (\<lambda>effect a jump. with_int_arg a (\<lambda>k. (- k, k)))
      else if n = ''SET_ADD'' then Some (\<lambda>effect a jump. with_int_arg a (\<lambda>k. (- k, k - 1)))
      else if n = ''LIST_APPEND'' then Some (\<lambda>effect a jump. with_int_arg a (\<lambda>k. (- k, k - 1)))
      else if n = ''MAP_ADD'' then Some (\<lambda>effect a jump. with_int_arg a (\<lambda>k. (- k, k - 2)))
      else if n = ''FORMAT_VALUE'' then Some (\<lambda>effect a jump. Inr (effect - 1, 1))
      else if n = ''FOR_ITER''
      then Some (\<lambda>effect a jump. Inr (if jump = Some True then (effect, 0) else (-1, 2)))
      else None)"

text \<open>\<open>BaseInstr.pre_and_post_stack_effect\<close>.\<close>

definition pre_and_post_stack_effect ::
  "opcode_module \<Rightarrow> instr \<Rightarrow> bool option \<Rightarrow> error + int \<times> int" where
  "pre_and_post_stack_effect M i jump =
     (case stack_effect M i jump of
        Inl e \<Rightarrow> Inl e
      | Inr effect \<Rightarrow>
          (case STATIC_STACK_EFFECTS M (iname i) of
             Some r \<Rightarrow> Inr r
           | None \<Rightarrow>
               (case DYNAMIC_STACK_EFFECTS M (iname i) of
                  Some f \<Rightarrow> f effect (iarg i) jump
                | None \<Rightarrow> Inr (effect, 0))))"

section \<open>bytecode.py: instructions\<close>

text \<open>
  A \<open>Label\<close> is an object without content, told apart by its identity only; the model
  numbers the label objects.
\<close>

type_synonym label = nat

text \<open>The argument of an instruction of \<open>bytecode.py\<close>: \<open>None\<close>, an integer or a label.\<close>

datatype arg = ArgNone | ArgInt int | ArgLabel label

text \<open>
  The class \<open>Instr\<close> of \<open>bytecode.py\<close> with the attributes \<open>_lineno\<close>, \<open>_name\<close>, \<open>_arg\<close>
  of \<open>BaseInstr\<close> and \<open>_size\<close>, \<open>_op\<close> of its own.
\<close>

record Instr =
  c_lineno :: int
  c_name :: string
  c_arg :: arg
  c_size :: nat
  c_op :: nat

text \<open>\<open>Instr.__init__\<close>: \<open>opcode.opmap[self.name]\<close> raises \<open>KeyError\<close> for an unknown name.\<close>

definition Instr_new :: "opcode_module \<Rightarrow> int \<Rightarrow> string \<Rightarrow> arg \<Rightarrow> error + Instr" where
  "Instr_new M ln nm a =
     (case map_of (opmap M) nm of
        None \<Rightarrow> Inl KeyError
      | Some opc \<Rightarrow>
          Inr \<lparr> c_lineno = ln, c_name = nm, c_arg = a,
                c_size = (if a \<noteq> ArgNone then 3 else 1), c_op = opc \<rparr>)"

definition replace_arg :: "opcode_module \<Rightarrow> Instr \<Rightarrow> arg \<Rightarrow> error + Instr" where
  "replace_arg M i a = Instr_new M (c_lineno i) (c_name i) a"

text \<open>
  \<open>BaseInstr.__eq__\<close> compares line, name and argument; a label argument is equal only to
  itself.
\<close>

definition Instr_eq :: "Instr \<Rightarrow> Instr \<Rightarrow> bool" where
  "Instr_eq i j = (c_lineno i = c_lineno j \<and> c_name i = c_name j \<and> c_arg i = c_arg j)"

text \<open>
  \<open>Instr.get_jump_target\<close>. Adding \<open>None\<close> to an integer raises \<open>TypeError\<close>; an absolute
  jump without argument returns its argument, which is \<open>None\<close>.
\<close>

definition get_jump_target :: "opcode_module \<Rightarrow> Instr \<Rightarrow> nat \<Rightarrow> error + int option" where
  "get_jump_target M i instr_offset =
     (case c_arg i of
        ArgLabel _ \<Rightarrow> Inl ValueError
      | ArgInt n \<Rightarrow>
          if c_op i \<in> set (hasjrel M) then Inr (Some (int instr_offset + int (c_size i) + n))
          else if c_op i \<in> set (hasjabs M) then Inr (Some n)
          else Inr None
      | ArgNone \<Rightarrow>
          if c_op i \<in> set (hasjrel M) then Inl TypeError
          else Inr None)"

text \<open>
  \<open>struct.pack('<B', op)\<close> and \<open>struct.pack('<BH', op, arg)\<close>: a value outside the range
  of its field raises \<open>struct.error\<close>; the 16-bit field is written low byte first.
\<close>

definition pack_B :: "nat \<Rightarrow> error + nat list" where
  "pack_B opc = (if opc > 255 then Inl StructError else Inr [opc])"

definition pack_BH :: "nat \<Rightarrow> int \<Rightarrow> error + nat list" where
  "pack_BH opc n =
     (if opc > 255 \<or> n < 0 \<or> n > 65535 then Inl StructError
      else Inr [opc, nat n mod 256, nat n div 256])"

text \<open>\<open>Instr.assemble\<close>; a label is no integer, so packing it raises.\<close>

definition Instr_assemble :: "Instr \<Rightarrow> error + nat list" where
  "Instr_assemble i =
     (case c_arg i of
        ArgNone \<Rightarrow> pack_B (c_op i)
      | ArgInt n \<Rightarrow> pack_BH (c_op i) n
      | ArgLabel _ \<Rightarrow> Inl StructError)"

text \<open>\<open>Instr.disassemble\<close>; reading past the end of the bytes raises \<open>IndexError\<close>.\<close>

definition Instr_disassemble :: "opcode_module \<Rightarrow> int \<Rightarrow> nat list \<Rightarrow> nat \<Rightarrow> error + Instr" where
  "Instr_disassemble M ln code offset =
     (if offset \<ge> length code then Inl IndexError
      else
        let opc = code ! offset in
        if opc \<ge> HAVE_ARGUMENT M then
          (if offset + 2 \<ge> length code then Inl IndexError
           else Instr_new M ln (opname M opc)
                  (ArgInt (int (code ! (offset + 1) + code ! (offset + 2) * 256))))
        else Instr_new M ln (opname M opc) ArgNone)"

section \<open>bytecode.py: blocks and the code graph\<close>

text \<open>
  A \<open>Block\<close> is a list of instructions with a label created together with it. Blocks are
  mutable objects that the block list and the label dictionary of a \<open>Code\<close> share, so the
  model keeps the block objects in a store; a block object is named by its own label.
  \<open>next_label\<close> is the next unused object identity. The list of constants is left out.
\<close>

type_synonym Block = "label \<times> Instr list"

record Code =
  code_obj :: code_obj
  blocks :: "label list"
  block_map :: "label \<rightharpoonup> label"
  store :: "label \<rightharpoonup> Instr list"
  next_label :: nat

text \<open>
  \<open>Code.__init__\<close> on a list of blocks given with their contents: every block goes to the
  store, the dictionary sends each label to its block, a later one replacing an earlier one.
\<close>

definition Code_init :: "code_obj \<Rightarrow> Block list \<Rightarrow> Code" where
  "Code_init co bs =
     \<lparr> code_obj = co,
       blocks = map fst bs,
       block_map = map_of (rev (map (\<lambda>(l, is). (l, l)) bs)),
       store = map_of (rev bs),
       next_label = Suc (fold max (map fst bs) 0) \<rparr>"

text \<open>
  Iterating over a \<open>Code\<close> as \<open>assemble\<close> does: \<open>[(block.label, list(block)) for block in self]\<close>.
\<close>

definition Code_iter :: "Code \<Rightarrow> Block list" where
  "Code_iter c = map (\<lambda>l. (l, case store c l of Some is \<Rightarrow> is | None \<Rightarrow> [])) (blocks c)"

text \<open>
  \<open>list.index\<close> on the block list compares with \<open>==\<close>, which on blocks is the equality of
  lists: the instructions are compared with \<open>BaseInstr.__eq__\<close>, the label is not looked at.
\<close>

definition Block_eq :: "Instr list \<Rightarrow> Instr list \<Rightarrow> bool" where
  "Block_eq xs ys = list_all2 Instr_eq xs ys"

fun blocks_index :: "(label \<rightharpoonup> Instr list) \<Rightarrow> label list \<Rightarrow> Instr list \<Rightarrow> nat \<Rightarrow> nat option" where
  "blocks_index st [] body k = None"
| "blocks_index st (l # ls) body k =
     (if (case st l of Some is \<Rightarrow> Block_eq is body | None \<Rightarrow> False) then Some k
      else blocks_index st ls body (Suc k))"

text \<open>The first argument of \<open>create_label\<close>: a label or a position.\<close>

datatype block_ref = ByLabel label | ByIndex int

text \<open>
  \<open>Code.create_label\<close>: the value returned or the exception raised, and the \<open>Code\<close> as the
  call leaves it. \<open>self._blocks[block_index]\<close> raises \<open>IndexError\<close> past the end.
\<close>

definition create_label :: "Code \<Rightarrow> block_ref \<Rightarrow> int \<Rightarrow> (error + label) \<times> Code" where
  "create_label c r index =
     (let found =
        (case r of
           ByLabel l \<Rightarrow>
             (case block_map c l of
                None \<Rightarrow> Inl KeyError
              | Some b \<Rightarrow>
                  (case blocks_index (store c) (blocks c)
                          (case store c b of Some is \<Rightarrow> is | None \<Rightarrow> []) 0 of
                     None \<Rightarrow> Inl ValueError
                   | Some k \<Rightarrow> Inr k))
         | ByIndex k \<Rightarrow> if k < 0 then Inl ValueError else Inr (nat k))
      in case found of
           Inl e \<Rightarrow> (Inl e, c)
         | Inr block_index \<Rightarrow>
             if index < 0 then (Inl ValueError, c)
             else if block_index \<ge> length (blocks c) then (Inl IndexError, c)
             else
               let b = blocks c ! block_index;
                   body = (case store c b of Some is \<Rightarrow> is | None \<Rightarrow> [])
               in if index = 0 then (Inr b, c)
                  else
                    let instructions = drop (nat index) body in
                    if instructions = [] then (Inl ValueError, c)
                    else
                      let l2 = next_label c in
                      (Inr l2,
                       c\<lparr> blocks := take (Suc block_index) (blocks c) @ [l2]
                                      @ drop (Suc block_index) (blocks c),
                          block_map := (block_map c)(l2 \<mapsto> l2),
                          store := (store c)(l2 \<mapsto> instructions, b \<mapsto> take (nat index) body),
                          next_label := Suc l2 \<rparr>))"

section \<open>bytecode.py: the assembler\<close>

text \<open>
  The first loop of \<open>Code.assemble\<close>: the offset of every block, in a dictionary keyed by
  the label. It returns the dictionary and the offset behind the last block.
\<close>

fun find_targets :: "Block list \<Rightarrow> nat \<Rightarrow> (label \<rightharpoonup> nat) \<Rightarrow> (label \<rightharpoonup> nat)" where
  "find_targets [] offset targets = targets"
| "find_targets ((l, is) # bs) offset targets =
     find_targets bs (offset + sum_list (map c_size is)) (targets(l \<mapsto> offset))"

text \<open>
  One round of the inner loop of the second pass: a label argument is replaced by the offset
  of its block, made relative for an opcode of \<open>hasjrel\<close>; the instruction is packed; the
  pair of its offset and line is recorded. The result is the bytes, the pair and the size
  by which the offset grows.
\<close>

definition assemble_instr ::
  "opcode_module \<Rightarrow> (label \<rightharpoonup> nat) \<Rightarrow> nat \<Rightarrow> Instr \<Rightarrow> error + nat list \<times> (nat \<times> int) \<times> nat" where
  "assemble_instr M targets offset i =
     (case (case c_arg i of
              ArgLabel l \<Rightarrow>
                (case targets l of
                   None \<Rightarrow> Inl KeyError
                 | Some t \<Rightarrow>
                     replace_arg M i
                       (ArgInt (if c_op i \<in> set (hasjrel M)
                                then int t - (int offset + int (c_size i))
                                else int t)))
            | _ \<Rightarrow> Inr i) of
        Inl e \<Rightarrow> Inl e
      | Inr i' \<Rightarrow>
          (case Instr_assemble i' of
             Inl e \<Rightarrow> Inl e
           | Inr bytes \<Rightarrow> Inr (bytes, (offset, c_lineno i'), c_size i')))"

fun assemble_instrs ::
  "opcode_module \<Rightarrow> (label \<rightharpoonup> nat) \<Rightarrow> nat \<Rightarrow> Instr list
     \<Rightarrow> error + nat list list \<times> (nat \<times> int) list \<times> nat" where
  "assemble_instrs M targets offset [] = Inr ([], [], offset)"
| "assemble_instrs M targets offset (i # is) =
     (case assemble_instr M targets offset i of
        Inl e \<Rightarrow> Inl e
      | Inr (bytes, ln, sz) \<Rightarrow>
          (case assemble_instrs M targets (offset + sz) is of
             Inl e \<Rightarrow> Inl e
           | Inr (code_str, linenos, offset') \<Rightarrow> Inr (bytes # code_str, ln # linenos, offset')))"

fun assemble_blocks ::
  "opcode_module \<Rightarrow> (label \<rightharpoonup> nat) \<Rightarrow> nat \<Rightarrow> Block list
     \<Rightarrow> error + nat list list \<times> (nat \<times> int) list \<times> nat" where
  "assemble_blocks M targets offset [] = Inr ([], [], offset)"
| "assemble_blocks M targets offset ((l, is) # bs) =
     (case assemble_instrs M targets offset is of
        Inl e \<Rightarrow> Inl e
      | Inr (code_str, linenos, offset') \<Rightarrow>
          (case assemble_blocks M targets offset' bs of
             Inl e \<Rightarrow> Inl e
           | Inr (code_str', linenos', offset'') \<Rightarrow>
               Inr (code_str @ code_str', linenos @ linenos', offset'')))"

text \<open>
  The three \<open>while\<close> statements of the line table. Each returns the entries it appended and what
  is left of the difference. The bytes literal of the first loop has two bytes, 255 and
  48 (an escape for 255 and then the character \<open>0\<close>); \<open>struct.pack('Bb', 0, -127)\<close> is 0 and 129.
\<close>

function doff_loop :: "int \<Rightarrow> nat list list \<times> int" where
  "doff_loop doff =
     (if doff > 255 then
        (case doff_loop (doff - 255) of (es, d) \<Rightarrow> ([255, 48] # es, d))
      else ([], doff))"
  by pat_completeness auto
termination
  by (relation "measure (\<lambda>doff. nat doff)") auto

declare doff_loop.simps [simp del]

function dlineno_neg_loop :: "int \<Rightarrow> nat list list \<times> int" where
  "dlineno_neg_loop dlineno =
     (if dlineno < -127 then
        (case dlineno_neg_loop (dlineno - (-127)) of (es, d) \<Rightarrow> ([0, 129] # es, d))
      else ([], dlineno))"
  by pat_completeness auto
termination
  by (relation "measure (\<lambda>dlineno. nat (- dlineno))") auto

declare dlineno_neg_loop.simps [simp del]

function dlineno_pos_loop :: "int \<Rightarrow> nat list list \<times> int" where
  "dlineno_pos_loop dlineno =
     (if dlineno > 126 then
        (case dlineno_pos_loop (dlineno - 126) of (es, d) \<Rightarrow> ([0, 126] # es, d))
      else ([], dlineno))"
  by pat_completeness auto
termination
  by (relation "measure (\<lambda>dlineno. nat dlineno)") auto

declare dlineno_pos_loop.simps [simp del]

text \<open>\<open>struct.pack('Bb', doff, dlineno)\<close>: the second byte is the two's complement.\<close>

definition pack_Bb :: "int \<Rightarrow> int \<Rightarrow> error + nat list" where
  "pack_Bb b s =
     (if b < 0 \<or> b > 255 \<or> s < -128 \<or> s > 127 then Inl StructError
      else Inr [nat b, nat (s mod 256)])"

text \<open>
  One round of the \<open>for\<close> loop over the recorded pairs, and the loop itself: the entries
  appended, or the exception of a failed assertion.
\<close>

definition lnotab_entry :: "int \<Rightarrow> int \<Rightarrow> error + nat list list" where
  "lnotab_entry doff0 dlineno0 =
     (case doff_loop doff0 of (es1, doff) \<Rightarrow>
      case dlineno_neg_loop dlineno0 of (es2, dlineno1) \<Rightarrow>
      case dlineno_pos_loop dlineno1 of (es3, dlineno) \<Rightarrow>
        if \<not> (0 \<le> doff \<and> doff \<le> 255) then Inl AssertionError
        else if \<not> (-127 \<le> dlineno \<and> dlineno \<le> 126) then Inl AssertionError
        else if doff \<noteq> 0 \<or> dlineno \<noteq> 0 then
          (case pack_Bb doff dlineno of
             Inl e \<Rightarrow> Inl e
           | Inr e \<Rightarrow> Inr (es1 @ es2 @ es3 @ [e]))
        else Inr (es1 @ es2 @ es3))"

fun lnotab_loop :: "nat \<Rightarrow> int \<Rightarrow> (nat \<times> int) list \<Rightarrow> error + nat list list" where
  "lnotab_loop old_offset old_lineno [] = Inr []"
| "lnotab_loop old_offset old_lineno ((offset, ln) # rest) =
     (case lnotab_entry (int offset - int old_offset) (ln - old_lineno) of
        Inl e \<Rightarrow> Inl e
      | Inr es \<Rightarrow>
          (case lnotab_loop offset ln rest of
             Inl e \<Rightarrow> Inl e
           | Inr es' \<Rightarrow> Inr (es @ es')))"

text \<open>
  \<open>Code.assemble\<close> on the blocks it iterates over, and on a \<open>Code\<close>: the new code object
  with the joined bytes and the joined line table.
\<close>

definition assemble_block_list :: "opcode_module \<Rightarrow> code_obj \<Rightarrow> Block list \<Rightarrow> error + code_obj" where
  "assemble_block_list M co bs =
     (let targets = find_targets bs 0 Map.empty in
      case assemble_blocks M targets 0 bs of
        Inl e \<Rightarrow> Inl e
      | Inr (code_str, linenos, offset) \<Rightarrow>
          (case lnotab_loop 0 (co_firstlineno co) linenos of
             Inl e \<Rightarrow> Inl e
           | Inr lnotab \<Rightarrow>
               Inr \<lparr> co_code = concat code_str,
                     co_firstlineno = co_firstlineno co,
                     co_lnotab = concat lnotab \<rparr>))"

definition Code_assemble :: "opcode_module \<Rightarrow> Code \<Rightarrow> error + code_obj" where
  "Code_assemble M c = assemble_block_list M (code_obj c) (Code_iter c)"

section \<open>bytecode.py: the disassembler\<close>

lemma Instr_new_size: "Instr_new M ln nm a = Inr i \<Longrightarrow> 0 < c_size i"
  by (auto simp: Instr_new_def split: option.splits)

lemma Instr_disassemble_size: "Instr_disassemble M ln code offset = Inr i \<Longrightarrow> 0 < c_size i"
  by (auto simp: Instr_disassemble_def Let_def split: if_splits dest: Instr_new_size)

text \<open>
  The first loop of \<open>Code.disassemble\<close>: the instructions in order and the set of jump
  targets. An instruction at a key of \<open>line_starts\<close> is built again with the new line,
  which stays current for the instructions after it.
\<close>

function scan ::
  "opcode_module \<Rightarrow> (nat \<rightharpoonup> int) \<Rightarrow> nat list \<Rightarrow> nat \<Rightarrow> int \<Rightarrow> error + Instr list \<times> int set" where
  "scan M line_starts code offset ln =
     (if offset < length code then
        (case Instr_disassemble M ln code offset of
           Inl e \<Rightarrow> Inl e
         | Inr instr0 \<Rightarrow>
             (case (case line_starts offset of
                      Some ln' \<Rightarrow>
                        (case Instr_new M ln' (c_name instr0) (c_arg instr0) of
                           Inl e \<Rightarrow> Inl e
                         | Inr instr' \<Rightarrow> Inr (ln', instr'))
                    | None \<Rightarrow> Inr (ln, instr0)) of
                Inl e \<Rightarrow> Inl e
              | Inr (ln1, instr) \<Rightarrow>
                  (case get_jump_target M instr offset of
                     Inl e \<Rightarrow> Inl e
                   | Inr target \<Rightarrow>
                       (case scan M line_starts code (offset + c_size instr) ln1 of
                          Inl e \<Rightarrow> Inl e
                        | Inr (instructions, block_starts) \<Rightarrow>
                            Inr (instr # instructions,
                                 (case target of
                                    Some t \<Rightarrow> insert t block_starts
                                  | None \<Rightarrow> block_starts))))))
      else Inr ([], {}))"
  by pat_completeness auto
termination
proof (relation "measure (\<lambda>(M, line_starts, code, offset, ln). length code - offset)")
  show "wf (measure (\<lambda>(M, line_starts, code, offset, ln). length code - offset))"
    by simp
next
  fix M :: opcode_module and line_starts :: "nat \<rightharpoonup> int" and code :: "nat list"
    and offset :: nat and ln :: int and instr0 x2 ln1 instr target
  assume lt: "offset < length code"
    and d: "Instr_disassemble M ln code offset = Inr instr0"
    and c: "(case line_starts offset of
               None \<Rightarrow> Inr (ln, instr0)
             | Some ln' \<Rightarrow>
                 (case Instr_new M ln' (c_name instr0) (c_arg instr0) of
                    Inl e \<Rightarrow> Inl e
                  | Inr instr' \<Rightarrow> Inr (ln', instr'))) = Inr x2"
    and x: "(ln1, instr) = x2"
  have "0 < c_size instr"
    using d c x Instr_disassemble_size [OF d]
    by (auto split: option.splits sum.splits dest: Instr_new_size)
  with lt show "((M, line_starts, code, offset + c_size instr, ln1), M, line_starts, code, offset, ln)
      \<in> measure (\<lambda>(M, line_starts, code, offset, ln). length code - offset)"
    by simp
qed

declare scan.simps [simp del]

text \<open>
  The second loop: a new block starts at every offset other than 0 that is a jump target;
  the instruction goes to the current block, which is the last one of the list. The label of
  a new block is the next unused identity, here the number of blocks made so far.
\<close>

fun split_blocks ::
  "int set \<Rightarrow> Instr list \<Rightarrow> nat \<Rightarrow> Block list \<Rightarrow> (int \<rightharpoonup> label) \<Rightarrow> Block list \<times> (int \<rightharpoonup> label)" where
  "split_blocks block_starts [] offset bs bm = (bs, bm)"
| "split_blocks block_starts (i # is) offset bs bm =
     (let (bs1, bm1) =
            (if offset \<noteq> 0 \<and> int offset \<in> block_starts
             then (bs @ [(length bs, [])], bm(int offset \<mapsto> length bs))
             else (bs, bm));
          bs2 = butlast bs1 @ [(fst (last bs1), snd (last bs1) @ [i])]
      in split_blocks block_starts is (offset + c_size i) bs2 bm1)"

text \<open>
  The third loop: every instruction with a jump target gets the label of the block that
  \<open>block_map\<close> has at the target; a target without a block raises \<open>KeyError\<close>.
\<close>

fun relabel_instrs ::
  "opcode_module \<Rightarrow> (int \<rightharpoonup> label) \<Rightarrow> nat \<Rightarrow> Instr list \<Rightarrow> error + Instr list \<times> nat" where
  "relabel_instrs M bm offset [] = Inr ([], offset)"
| "relabel_instrs M bm offset (i # is) =
     (case get_jump_target M i offset of
        Inl e \<Rightarrow> Inl e
      | Inr target \<Rightarrow>
          (case (case target of
                   None \<Rightarrow> Inr i
                 | Some t \<Rightarrow>
                     (case bm t of
                        None \<Rightarrow> Inl KeyError
                      | Some l \<Rightarrow> replace_arg M i (ArgLabel l))) of
             Inl e \<Rightarrow> Inl e
           | Inr i' \<Rightarrow>
               (case relabel_instrs M bm (offset + c_size i) is of
                  Inl e \<Rightarrow> Inl e
                | Inr (is', offset') \<Rightarrow> Inr (i' # is', offset'))))"

fun relabel_blocks ::
  "opcode_module \<Rightarrow> (int \<rightharpoonup> label) \<Rightarrow> nat \<Rightarrow> Block list \<Rightarrow> error + Block list" where
  "relabel_blocks M bm offset [] = Inr []"
| "relabel_blocks M bm offset ((l, is) # bs) =
     (case relabel_instrs M bm offset is of
        Inl e \<Rightarrow> Inl e
      | Inr (is', offset') \<Rightarrow>
          (case relabel_blocks M bm offset' bs of
             Inl e \<Rightarrow> Inl e
           | Inr bs' \<Rightarrow> Inr ((l, is') # bs')))"

text \<open>
  \<open>Code.disassemble\<close>: the blocks it builds, and the \<open>Code\<close> made of them. The dictionary
  of line starts is \<open>dict(dis.findlinestarts(code_obj))\<close>.
\<close>

definition disassemble_blocks :: "opcode_module \<Rightarrow> code_obj \<Rightarrow> error + Block list" where
  "disassemble_blocks M co =
     (case scan M (map_of (rev (findlinestarts M co))) (co_code co) 0 (co_firstlineno co) of
        Inl e \<Rightarrow> Inl e
      | Inr (instructions, block_starts) \<Rightarrow>
          (case split_blocks block_starts instructions 0 [(0, [])] [0 \<mapsto> 0] of
             (bs, bm) \<Rightarrow>
               if snd (last bs) = [] then Inl AssertionError
               else relabel_blocks M bm 0 bs))"

definition Code_disassemble :: "opcode_module \<Rightarrow> code_obj \<Rightarrow> error + Code" where
  "Code_disassemble M co =
     (case disassemble_blocks M co of
        Inl e \<Rightarrow> Inl e
      | Inr bs \<Rightarrow> Inr (Code_init co bs))"

section \<open>A concrete instruction-set description\<close>

text \<open>
  A part of the CPython opcode table, used to run the definitions on concrete inputs. The
  flag chooses between the 3.10 and the 3.11 reading of \<open>sys.version_info\<close>. The effect
  function follows \<open>dis.stack_effect\<close> on these opcodes: it raises \<open>ValueError\<close> when
  the presence of \<open>oparg\<close> does not fit the opcode or the opcode is unknown, and for
  \<open>jump=None\<close> it returns the larger of the two directions' effects.
\<close>

definition example_opmap :: "(string \<times> nat) list" where
  "example_opmap =
    [(''POP_TOP'', 1), (''NOP'', 9), (''UNARY_NEGATIVE'', 11), (''BINARY_ADD'', 23),
     (''RETURN_VALUE'', 83), (''STORE_NAME'', 90), (''UNPACK_SEQUENCE'', 92),
     (''FOR_ITER'', 93), (''UNPACK_EX'', 94), (''LOAD_CONST'', 100), (''LOAD_NAME'', 101),
     (''BUILD_LIST'', 103), (''COMPARE_OP'', 107), (''JUMP_FORWARD'', 110),
     (''JUMP_IF_TRUE_OR_POP'', 112), (''JUMP_ABSOLUTE'', 113), (''POP_JUMP_IF_FALSE'', 114),
     (''LOAD_GLOBAL'', 116), (''LOAD_FAST'', 124), (''CALL_FUNCTION'', 131),
     (''LOAD_CLOSURE'', 135), (''LOAD_DEREF'', 136), (''EXTENDED_ARG'', 144),
     (''LIST_APPEND'', 145), (''SET_ADD'', 146)]"

definition example_opname :: "nat \<Rightarrow> string" where
  "example_opname opc =
     (case find (\<lambda>(n, c). c = opc) example_opmap of
        Some (n, c) \<Rightarrow> n
      | None \<Rightarrow> ''<'' @ digits opc @ ''>'')"

definition example_effect_dir :: "nat \<Rightarrow> int \<Rightarrow> bool \<Rightarrow> int option" where
  "example_effect_dir opc oparg jump =
     (if opc \<in> {9, 11, 110, 113, 144} then Some 0
      else if opc \<in> {1, 23, 83, 90, 107, 114, 145, 146} then Some (-1)
      else if opc \<in> {100, 101, 116, 124, 135, 136} then Some 1
      else if opc = 92 then Some (oparg - 1)
      else if opc = 93 then Some (if jump then -1 else 1)
      else if opc = 94 then Some (oparg mod 256 + oparg div 256)
      else if opc = 103 then Some (1 - oparg)
      else if opc = 112 then Some (if jump then 0 else -1)
      else if opc = 131 then Some (- oparg)
      else None)"

definition example_stack_effect :: "nat \<Rightarrow> int option \<Rightarrow> bool option \<Rightarrow> error + int" where
  "example_stack_effect opc oparg jump =
     (if opc \<ge> 90 \<and> oparg = None then Inl ValueError
      else if opc < 90 \<and> oparg \<noteq> None then Inl ValueError
      else
        (let n = (case oparg of None \<Rightarrow> 0 | Some k \<Rightarrow> k) in
         case (example_effect_dir opc n True, example_effect_dir opc n False) of
           (Some t, Some f) \<Rightarrow>
             Inr (case jump of None \<Rightarrow> max t f | Some True \<Rightarrow> t | Some False \<Rightarrow> f)
         | _ \<Rightarrow> Inl ValueError))"

text \<open>
  \<open>dis.findlinestarts\<close> of the interpreter: it walks the pairs of the table, reads the line
  increment as a signed byte, and reports a line at the offset where it starts.
\<close>

fun example_linestarts :: "nat list \<Rightarrow> nat \<Rightarrow> int \<Rightarrow> int option \<Rightarrow> (nat \<times> int) list" where
  "example_linestarts (b # l # rest) addr line lastline =
     (let incr = (if l \<ge> 128 then int l - 256 else int l) in
      if b \<noteq> 0 then
        (if Some line \<noteq> lastline
         then (addr, line) # example_linestarts rest (addr + b) (line + incr) (Some line)
         else example_linestarts rest (addr + b) (line + incr) lastline)
      else example_linestarts rest addr (line + incr) lastline)"
| "example_linestarts _ addr line lastline =
     (if Some line \<noteq> lastline then [(addr, line)] else [])"

definition example_findlinestarts :: "code_obj \<Rightarrow> (nat \<times> int) list" where
  "example_findlinestarts co = example_linestarts (co_lnotab co) 0 (co_firstlineno co) None"

definition example_module :: "bool \<Rightarrow> opcode_module" where
  "example_module v311 =
     \<lparr> opmap = example_opmap,
       opname = example_opname,
       HAVE_ARGUMENT = 90,
       hasjrel = [93, 110],
       hasjabs = [112, 113, 114],
       hasfree = [135, 136],
       haslocal = [124],
       hasname = [90, 101, 116],
       hasconst = [100],
       hascompare = [107],
       py311 = v311,
       dis_stack_effect = example_stack_effect,
       findlinestarts = example_findlinestarts \<rparr>"

section \<open>Concrete inputs for bytecode.py\<close>

text \<open>A \<open>NOP\<close> on line 1, and a graph of two blocks with the same two instructions each.\<close>

definition nop1 :: Instr where
  "nop1 = \<lparr> c_lineno = 1, c_name = ''NOP'', c_arg = ArgNone, c_size = 1, c_op = 9 \<rparr>"

definition twin_code :: Code where
  "twin_code =
     Code_init \<lparr> co_code = [], co_firstlineno = 1, co_lnotab = [] \<rparr>
       [(0, [nop1, nop1]), (1, [nop1, nop1])]"

text \<open>The bytes of \<open>EXTENDED_ARG 1\<close> followed by \<open>LOAD_CONST 2\<close>.\<close>

definition ext_code :: code_obj where
  "ext_code = \<lparr> co_code = [144, 1, 0, 100, 2, 0], co_firstlineno = 1, co_lnotab = [] \<rparr>"

section \<open>Predicates, auxiliary functions and further inputs for bytecode.py\<close>

text \<open>
  Every instruction of the list is decoded from its own bytes and the table of line starts:
  its name is the name of the opcode byte at its offset, its opcode the one \<open>opmap\<close> has
  for the name, its argument the two bytes after the opcode (low byte first) when the opcode
  has an argument and \<open>None\<close> otherwise, its line the one starting at its offset or else
  the line of the instruction before it, and the next instruction starts right behind it.
\<close>

fun decoded_from ::
  "opcode_module \<Rightarrow> (nat \<rightharpoonup> int) \<Rightarrow> nat list \<Rightarrow> nat \<Rightarrow> int \<Rightarrow> Instr list \<Rightarrow> bool" where
  "decoded_from M ls code offset ln [] = (offset \<ge> length code)"
| "decoded_from M ls code offset ln (i # is) =
     (offset < length code
      \<and> (code ! offset \<ge> HAVE_ARGUMENT M \<longrightarrow> offset + 2 < length code)
      \<and> c_name i = opname M (code ! offset)
      \<and> map_of (opmap M) (c_name i) = Some (c_op i)
      \<and> c_arg i = (if code ! offset \<ge> HAVE_ARGUMENT M
                   then ArgInt (int (code ! (offset + 1) + code ! (offset + 2) * 256))
                   else ArgNone)
      \<and> c_size i = (if code ! offset \<ge> HAVE_ARGUMENT M then 3 else 1)
      \<and> c_lineno i = (case ls offset of Some l \<Rightarrow> l | None \<Rightarrow> ln)
      \<and> decoded_from M ls code (offset + c_size i) (c_lineno i) is)"

text \<open>
  An instruction object as its constructor leaves it: the size and the opcode are the ones
  the constructor computes from the argument and the name.
\<close>

definition Instr_wf :: "opcode_module \<Rightarrow> Instr \<Rightarrow> bool" where
  "Instr_wf M i = (Instr_new M (c_lineno i) (c_name i) (c_arg i) = Inr i)"

text \<open>
  The layout: the offset of the \<open>n\<close>-th instruction of a list and of the \<open>k\<close>-th
  block of a graph, as the sum of the sizes of the instructions before it.
\<close>

definition instr_offset :: "Instr list \<Rightarrow> nat \<Rightarrow> nat" where
  "instr_offset is n = sum_list (map c_size (take n is))"

definition block_offset :: "Block list \<Rightarrow> nat \<Rightarrow> nat" where
  "block_offset bs k = sum_list (map c_size (concat (map snd (take k bs))))"

text \<open>
  The instruction set of the example of the specification: a relative jump \<open>J\<close> with the
  code 10. In the graph, \<open>J\<close> stands at offset 0 and jumps to the block at offset 40.
\<close>

definition spec_example_module :: opcode_module where
  "spec_example_module =
     (example_module False)
       \<lparr> opmap := [(''NOP'', 9), (''J'', 10)],
         opname := (\<lambda>c. if c = 9 then ''NOP'' else if c = 10 then ''J'' else ''<'' @ digits c @ ''>''),
         HAVE_ARGUMENT := 10,
         hasjrel := [10],
         hasjabs := [] \<rparr>"

definition spec_example_code :: Code where
  "spec_example_code =
     Code_init \<lparr> co_code = [], co_firstlineno = 1, co_lnotab = [] \<rparr>
       [(0, \<lparr> c_lineno = 1, c_name = ''J'', c_arg = ArgLabel 1, c_size = 3, c_op = 10 \<rparr>
              # replicate 37 nop1),
        (1, [nop1])]"

text \<open>
  Modelled from the spec: the decoder of the delta-encoded line table is not part of the
  source (the disassembler receives the decoded line starts from \<open>dis.findlinestarts\<close>).
  Decoding walks the pairs of an offset increment and a signed line increment; the line of
  an address is the line reached when the next increment would pass the address.
\<close>

fun addr2line :: "nat list \<Rightarrow> nat \<Rightarrow> int \<Rightarrow> nat \<Rightarrow> int" where
  "addr2line (b # l # rest) addr line addrq =
     (if addr + b > addrq then line
      else addr2line rest (addr + b) (line + (if l \<ge> 128 then int l - 256 else int l)) addrq)"
| "addr2line _ addr line addrq = line"

text \<open>A graph of one block: a \<open>NOP\<close> on line 1 followed by a \<open>NOP\<close> on line 200.\<close>

definition far_lines_code :: Code where
  "far_lines_code =
     Code_init \<lparr> co_code = [], co_firstlineno = 1, co_lnotab = [] \<rparr>
       [(0, [nop1, nop1\<lparr> c_lineno := 200 \<rparr>])]"

text \<open>
  \<open>Instr.is_jump\<close>.
\<close>

definition is_jump :: "opcode_module \<Rightarrow> Instr \<Rightarrow> bool" where
  "is_jump M i = (c_op i \<in> set (hasjrel M) \<or> c_op i \<in> set (hasjabs M))"

text \<open>The integer that the second pass puts in place of a label found at offset t.\<close>

definition resolved_arg :: "opcode_module \<Rightarrow> (label \<rightharpoonup> nat) \<Rightarrow> nat \<Rightarrow> Instr \<Rightarrow> arg" where
  "resolved_arg M T off i =
     (case c_arg i of
        ArgLabel l \<Rightarrow>
          (case T l of
             None \<Rightarrow> ArgLabel l
           | Some t \<Rightarrow> ArgInt (if c_op i \<in> set (hasjrel M)
                                then int t - (int off + int (c_size i)) else int t))
      | a \<Rightarrow> a)"

text \<open>
  The bytes of an opcode with a resolved argument, as \<open>Instr.assemble\<close> packs them.
\<close>

fun encode :: "nat \<times> arg \<Rightarrow> nat list" where
  "encode (opc, ArgNone) = [opc]"
| "encode (opc, ArgInt n) = [opc, nat n mod 256, nat n div 256]"
| "encode (opc, ArgLabel l) = []"

text \<open>
  The opcode and the argument fit their fields of \<open>struct.pack\<close>.
\<close>

definition encodable :: "nat \<times> arg \<Rightarrow> bool" where
  "encodable r = (fst r \<le> 255 \<and>
      (case snd r of ArgNone \<Rightarrow> True | ArgInt n \<Rightarrow> 0 \<le> n \<and> n \<le> 65535 | ArgLabel l \<Rightarrow> False))"

text \<open>
  The opcodes and resolved arguments of a list of instructions laid out from an offset.
\<close>

fun raws :: "opcode_module \<Rightarrow> (label \<rightharpoonup> nat) \<Rightarrow> nat \<Rightarrow> Instr list \<Rightarrow> (nat \<times> arg) list" where
  "raws M T off [] = []"
| "raws M T off (i # is) = (c_op i, resolved_arg M T off i) # raws M T (off + c_size i) is"

text \<open>
  The pairs of offset and line that the second pass records.
\<close>

fun linenos_of :: "nat \<Rightarrow> Instr list \<Rightarrow> (nat \<times> int) list" where
  "linenos_of off [] = []"
| "linenos_of off (i # is) = (off, c_lineno i) # linenos_of (off + c_size i) is"

text \<open>
  The size of an instruction with the given opcode and argument.
\<close>

definition raw_size :: "nat \<times> arg \<Rightarrow> nat" where
  "raw_size r = (if snd r \<noteq> ArgNone then 3 else 1)"

text \<open>
  An encodable pair whose argument is present exactly when the opcode has one, whose
  relative jump has an argument, and whose opcode is named by \<open>opname\<close>.
\<close>

definition raw_ok :: "opcode_module \<Rightarrow> nat \<times> arg \<Rightarrow> bool" where
  "raw_ok M r =
     (encodable r
      \<and> (snd r = ArgNone \<longleftrightarrow> fst r < HAVE_ARGUMENT M)
      \<and> (fst r \<in> set (hasjrel M) \<longrightarrow> snd r \<noteq> ArgNone)
      \<and> map_of (opmap M) (opname M (fst r)) = Some (fst r))"

text \<open>
  The jump target of an opcode with an integer argument at an offset.
\<close>

definition raw_target :: "opcode_module \<Rightarrow> nat \<Rightarrow> nat \<times> arg \<Rightarrow> int option" where
  "raw_target M off r =
     (case snd r of
        ArgInt n \<Rightarrow>
          if fst r \<in> set (hasjrel M) then Some (int off + 3 + n)
          else if fst r \<in> set (hasjabs M) then Some n
          else None
      | _ \<Rightarrow> None)"

text \<open>
  The jump targets of a list of such pairs laid out from an offset.
\<close>

fun raw_targets :: "opcode_module \<Rightarrow> nat \<Rightarrow> (nat \<times> arg) list \<Rightarrow> int set" where
  "raw_targets M off [] = {}"
| "raw_targets M off (r # rs) =
     (case raw_target M off r of Some t \<Rightarrow> {t} | None \<Rightarrow> {}) \<union> raw_targets M (off + raw_size r) rs"

text \<open>
  The opcode and the argument of an instruction.
\<close>

definition raw_of :: "Instr \<Rightarrow> nat \<times> arg" where
  "raw_of i = (c_op i, c_arg i)"

text \<open>
  The invariant of the second loop of the disassembler: the labels are the positions of
  the blocks, the offset is the size of what was placed, and every key of the dictionary is
  the offset of the block it is sent to.
\<close>

definition split_inv :: "Block list \<Rightarrow> (int \<rightharpoonup> label) \<Rightarrow> nat \<Rightarrow> bool" where
  "split_inv bs bm off =
     (bs \<noteq> [] \<and> map fst bs = [0..<length bs]
      \<and> off = sum_list (map c_size (concat (map snd bs)))
      \<and> (\<forall>t l. bm t = Some l \<longrightarrow> l < length bs \<and> t = int (block_offset bs l)))"

text \<open>
  One round of the second loop of the disassembler.
\<close>

definition split_step :: "int set \<Rightarrow> Instr \<Rightarrow> nat \<Rightarrow> Block list \<times> (int \<rightharpoonup> label)
    \<Rightarrow> Block list \<times> (int \<rightharpoonup> label)" where
  "split_step S i off st =
     (case st of (bs, bm) \<Rightarrow>
        let (bs1, bm1) =
              (if off \<noteq> 0 \<and> int off \<in> S
               then (bs @ [(length bs, [])], bm(int off \<mapsto> length bs))
               else (bs, bm))
        in (butlast bs1 @ [(fst (last bs1), snd (last bs1) @ [i])], bm1))"

text \<open>
  The instructions after the third loop of the disassembler, when every target has a block.
\<close>

fun relabelled :: "opcode_module \<Rightarrow> (int \<rightharpoonup> label) \<Rightarrow> nat \<Rightarrow> Instr list \<Rightarrow> Instr list" where
  "relabelled M bm off [] = []"
| "relabelled M bm off (i # is) =
     (case raw_target M off (raw_of i) of
        Some t \<Rightarrow> i\<lparr> c_arg := ArgLabel (case bm t of Some l \<Rightarrow> l | None \<Rightarrow> 0) \<rparr>
      | None \<Rightarrow> i) # relabelled M bm (off + c_size i) is"

text \<open>
  The same for a list of blocks.
\<close>

fun relabelled_blocks :: "opcode_module \<Rightarrow> (int \<rightharpoonup> label) \<Rightarrow> nat \<Rightarrow> Block list \<Rightarrow> Block list" where
  "relabelled_blocks M bm off [] = []"
| "relabelled_blocks M bm off ((l, is) # bs) =
     (l, relabelled M bm off is) # relabelled_blocks M bm (off + sum_list (map c_size is)) bs"

text \<open>
  An instruction as the scan builds it from encodable bytes.
\<close>

definition decoded_ok :: "opcode_module \<Rightarrow> Instr \<Rightarrow> bool" where
  "decoded_ok M d = (Instr_wf M d \<and> raw_ok M (raw_of d))"

text \<open>
  A valid instruction of a graph: built by the constructor, with an argument exactly when
  its opcode has one, with a label when it is a jump, and with an opcode that \<open>opname\<close>
  names.
\<close>

definition instr_valid :: "opcode_module \<Rightarrow> Instr \<Rightarrow> bool" where
  "instr_valid M i =
     (Instr_wf M i
      \<and> (c_arg i = ArgNone \<longleftrightarrow> c_op i < HAVE_ARGUMENT M)
      \<and> (is_jump M i \<longrightarrow> (\<exists>l. c_arg i = ArgLabel l))
      \<and> map_of (opmap M) (opname M (c_op i)) = Some (c_op i))"

text \<open>
  A valid graph: valid instructions, every jump to the label of a block that starts inside
  the code, distinct labels, and at least one instruction.
\<close>

definition valid_graph :: "opcode_module \<Rightarrow> Block list \<Rightarrow> bool" where
  "valid_graph M bs =
     ((\<forall>i \<in> set (concat (map snd bs)).
         instr_valid M i
         \<and> (is_jump M i \<longrightarrow>
              (\<exists>k < length bs. c_arg i = ArgLabel (fst (bs ! k))
                 \<and> block_offset bs k < sum_list (map c_size (concat (map snd bs))))))
      \<and> distinct (map fst bs)
      \<and> concat (map snd bs) \<noteq> [])"

text \<open>
  A graph with an absolute and a relative jump to its second block.
\<close>

definition loop_code :: Code where
  "loop_code =
     Code_init \<lparr> co_code = [], co_firstlineno = 1, co_lnotab = [] \<rparr>
       [(5, [\<lparr> c_lineno = 1, c_name = ''LOAD_CONST'', c_arg = ArgInt 1, c_size = 3, c_op = 100 \<rparr>,
             \<lparr> c_lineno = 1, c_name = ''POP_JUMP_IF_FALSE'', c_arg = ArgLabel 9, c_size = 3,
               c_op = 114 \<rparr>,
             \<lparr> c_lineno = 2, c_name = ''JUMP_FORWARD'', c_arg = ArgLabel 9, c_size = 3,
               c_op = 110 \<rparr>]),
        (9, [nop1\<lparr> c_lineno := 3 \<rparr>,
             \<lparr> c_lineno = 3, c_name = ''RETURN_VALUE'', c_arg = ArgNone, c_size = 1, c_op = 83 \<rparr>])]"

text \<open>A block with the label \<open>l\<close> starts at the offset \<open>t\<close> of the layout.\<close>

definition starts_at :: "Block list \<Rightarrow> label \<Rightarrow> int \<Rightarrow> bool" where
  "starts_at bs l t = (\<exists>k < length bs. fst (bs ! k) = l \<and> int (block_offset bs k) = t)"

text \<open>
  The second list is the first one with jump targets turned into labels: an instruction
  without a jump target is kept as it is; one with a jump target differs in its argument
  only, which is the label of the block that starts at the target.
\<close>

fun labelled_from :: "opcode_module \<Rightarrow> Block list \<Rightarrow> nat \<Rightarrow> Instr list \<Rightarrow> Instr list \<Rightarrow> bool" where
  "labelled_from M bs offset [] gs = (gs = [])"
| "labelled_from M bs offset (s # ss) gs =
     (case gs of
        [] \<Rightarrow> False
      | g # gs' \<Rightarrow>
          (case get_jump_target M s offset of
             Inl e \<Rightarrow> False
           | Inr None \<Rightarrow> g = s
           | Inr (Some t) \<Rightarrow>
               (case c_arg g of
                  ArgLabel l \<Rightarrow> g\<lparr> c_arg := c_arg s \<rparr> = s \<and> starts_at bs l t
                | _ \<Rightarrow> False))
          \<and> labelled_from M bs (offset + c_size s) ss gs')"

text \<open>An integer argument fits the 16-bit field.\<close>

definition operand_small :: "Instr \<Rightarrow> bool" where
  "operand_small i = (case c_arg i of ArgInt n \<Rightarrow> 0 \<le> n \<and> n \<le> 65535 | _ \<Rightarrow> True)"

text \<open>
  The bytes of an extended-operand prefix, an absolute and a relative jump to offset 9, and
  two instructions without argument, with their line table; and the graph they disassemble
  to.
\<close>

definition jump_bytes :: code_obj where
  "jump_bytes = \<lparr> co_code = [144, 1, 0, 114, 9, 0, 110, 0, 0, 9, 83], co_firstlineno = 1,
                  co_lnotab = [3, 0, 3, 1, 3, 1, 1, 0] \<rparr>"

definition jump_graph :: "Block list" where
  "jump_graph =
     [(0, [\<lparr> c_lineno = 1, c_name = ''EXTENDED_ARG'', c_arg = ArgInt 1, c_size = 3,
             c_op = 144 \<rparr>,
           \<lparr> c_lineno = 1, c_name = ''POP_JUMP_IF_FALSE'', c_arg = ArgLabel 1, c_size = 3,
             c_op = 114 \<rparr>,
           \<lparr> c_lineno = 2, c_name = ''JUMP_FORWARD'', c_arg = ArgLabel 1, c_size = 3,
             c_op = 110 \<rparr>]),
      (1, [\<lparr> c_lineno = 3, c_name = ''NOP'', c_arg = ArgNone, c_size = 1, c_op = 9 \<rparr>,
           \<lparr> c_lineno = 3, c_name = ''RETURN_VALUE'', c_arg = ArgNone, c_size = 1,
             c_op = 83 \<rparr>])]"

text \<open>
  The 3.11 table with its entry \<open>CACHE\<close> for the code 0, which the example table leaves
  out.
\<close>

definition cache_module :: opcode_module where
  "cache_module =
     (example_module True)
       \<lparr> opmap := (''CACHE'', 0) # example_opmap,
         opname := (\<lambda>c. if c = 0 then ''CACHE'' else example_opname c) \<rparr>"

section \<open>Predicates used in the statements about instr.py\<close>

text \<open>
  An instruction object is validated when its opcode is the one \<open>opmap\<close> gives for its name
  and \<open>_check_arg\<close> accepts its name, opcode and argument.
\<close>

definition validated :: "opcode_module \<Rightarrow> instr \<Rightarrow> bool" where
  "validated M i =
     (map_of (opmap M) (iname i) = Some (iopcode i)
      \<and> check_arg M (iname i) (iopcode i) (iarg i) = None)"

text \<open>
  What a mutator called on the object \<open>i\<close> may leave behind: when it returns, a validated
  object with the location untouched; when it raises, the object as it was.
\<close>

definition mutation_safe :: "opcode_module \<Rightarrow> instr \<Rightarrow> error option \<times> instr \<Rightarrow> bool" where
  "mutation_safe M i r =
     (case r of
        (None, i') \<Rightarrow> validated M i' \<and> ilocation i' = ilocation i
      | (Some e, i') \<Rightarrow> i' = i)"

text \<open>
  The documented behaviour of \<open>dis.stack_effect\<close> for \<open>jump=None\<close>: the larger of the
  effects of the two directions.
\<close>

definition picks_larger :: "opcode_module \<Rightarrow> bool" where
  "picks_larger M =
     (\<forall>opc oparg t f.
        dis_stack_effect M opc oparg (Some True) = Inr t \<and>
        dis_stack_effect M opc oparg (Some False) = Inr f \<longrightarrow>
        dis_stack_effect M opc oparg None = Inr (max t f))"

section \<open>Properties of instr.py\<close>

subsection \<open>Validation at construction\<close>

lemma set_private_returns:
  "set_private M i nm a = (None, i') \<Longrightarrow>
     \<exists>s opc. nm = PyStr s \<and> map_of (opmap M) s = Some opc \<and> check_arg M s opc a = None
        \<and> i' = i\<lparr>iname := s, iopcode := opc, iarg := a\<rparr>"
  by (auto simp: set_private_def split: operand.splits option.splits)

lemma set_private_raises:
  "set_private M i nm a = (Some e, i') \<Longrightarrow> i' = i"
  by (auto simp: set_private_def split: operand.splits option.splits)

lemma int_value_present: "a \<noteq> UNSET \<Longrightarrow> int_value a = as_int a"
  by (cases a) simp_all

lemma check_arg_accepts:
  assumes "check_arg M nm opc a = None"
  shows "nm \<noteq> ''EXTENDED_ARG''
    \<and> (opc \<ge> HAVE_ARGUMENT M \<longrightarrow> a \<noteq> UNSET)
    \<and> (opc < HAVE_ARGUMENT M \<longrightarrow> a = UNSET)
    \<and> (has_jump M opc \<longrightarrow> is_label_or_block a)
    \<and> (\<not> has_jump M opc \<and> opc \<in> set (hasfree M) \<longrightarrow> is_cell_or_free a)
    \<and> (\<not> has_jump M opc \<and> opc \<notin> set (hasfree M)
         \<and> (opc \<in> set (haslocal M) \<or> opc \<in> set (hasname M)) \<longrightarrow>
           (if py311 M \<and> nm = ''LOAD_GLOBAL'' then is_bool_str_pair a else is_str a))
    \<and> (\<not> has_jump M opc \<and> opc \<notin> set (hasfree M) \<and> opc \<notin> set (haslocal M)
         \<and> opc \<notin> set (hasname M) \<and> opc \<notin> set (hasconst M) \<and> opc \<in> set (hascompare M) \<longrightarrow>
           is_compare a)
    \<and> (\<not> has_jump M opc \<and> opc \<notin> set (hasfree M) \<and> opc \<notin> set (haslocal M)
         \<and> opc \<notin> set (hasname M) \<and> opc \<notin> set (hasconst M) \<and> opc \<notin> set (hascompare M)
         \<and> opc \<ge> HAVE_ARGUMENT M \<longrightarrow>
           (\<exists>n. as_int a = Some n \<and> 0 \<le> n \<and> n \<le> 2147483647))"
  using assms
  by (auto simp: check_arg_def check_arg_int_def int_value_present
      split: if_splits option.splits)

lemma Instr_init_returns:
  assumes "Instr_init M nm a ln location = Inr i"
  shows "nm = PyStr (iname i) \<and> map_of (opmap M) (iname i) = Some (iopcode i) \<and> iarg i = a
     \<and> check_arg M (iname i) (iopcode i) a = None"
  using assms
  by (auto simp: Instr_init_def empty_slots_def
      split: prod.splits option.splits lineno_arg.splits sum.splits
      dest!: set_private_returns)

text \<open>
  Claim C7, as the code has it. Whenever the constructor returns an instruction, the name is
  a known operation other than \<open>EXTENDED_ARG\<close>, the argument is present exactly when the
  opcode is at least \<open>HAVE_ARGUMENT\<close>, and the argument fits the first category of the
  chain that the opcode belongs to: a label or block for a jump, a cell or free variable for
  a free-variable opcode, a string for a local or name opcode (but a pair of a boolean and a
  string for \<open>LOAD_GLOBAL\<close> from 3.11 on), a \<open>Compare\<close> member for a comparison opcode, and
  an integer in \<open>0..2147483647\<close> for an opcode with an argument and no category. In every
  other case the constructor raises.
\<close>

theorem Instr_init_operand_category:
  assumes "Instr_init M nm a ln location = Inr i"
  shows "nm = PyStr (iname i) \<and> map_of (opmap M) (iname i) = Some (iopcode i) \<and> iarg i = a
    \<and> iname i \<noteq> ''EXTENDED_ARG''
    \<and> (iopcode i \<ge> HAVE_ARGUMENT M \<longrightarrow> a \<noteq> UNSET)
    \<and> (iopcode i < HAVE_ARGUMENT M \<longrightarrow> a = UNSET)
    \<and> (has_jump M (iopcode i) \<longrightarrow> is_label_or_block a)
    \<and> (\<not> has_jump M (iopcode i) \<and> iopcode i \<in> set (hasfree M) \<longrightarrow> is_cell_or_free a)
    \<and> (\<not> has_jump M (iopcode i) \<and> iopcode i \<notin> set (hasfree M)
         \<and> (iopcode i \<in> set (haslocal M) \<or> iopcode i \<in> set (hasname M)) \<longrightarrow>
           (if py311 M \<and> iname i = ''LOAD_GLOBAL'' then is_bool_str_pair a else is_str a))
    \<and> (\<not> has_jump M (iopcode i) \<and> iopcode i \<notin> set (hasfree M)
         \<and> iopcode i \<notin> set (haslocal M) \<and> iopcode i \<notin> set (hasname M)
         \<and> iopcode i \<notin> set (hasconst M) \<and> iopcode i \<in> set (hascompare M) \<longrightarrow>
           is_compare a)
    \<and> (\<not> has_jump M (iopcode i) \<and> iopcode i \<notin> set (hasfree M)
         \<and> iopcode i \<notin> set (haslocal M) \<and> iopcode i \<notin> set (hasname M)
         \<and> iopcode i \<notin> set (hasconst M) \<and> iopcode i \<notin> set (hascompare M)
         \<and> iopcode i \<ge> HAVE_ARGUMENT M \<longrightarrow>
           (\<exists>n. as_int a = Some n \<and> 0 \<le> n \<and> n \<le> 2147483647))"
proof -
  from assms have r: "nm = PyStr (iname i)" "map_of (opmap M) (iname i) = Some (iopcode i)"
    "iarg i = a" "check_arg M (iname i) (iopcode i) a = None"
    using Instr_init_returns by blast+
  from check_arg_accepts [OF r(4)] r(1-3) show ?thesis by simp
qed

lemma example_jump_forward:
  "Instr_init (example_module False) (PyStr ''JUMP_FORWARD'') (LabelArg 0) LinenoUnset None
     = Inr \<lparr> iname = ''JUMP_FORWARD'', iopcode = 110, iarg = LabelArg 0, ilocation = None \<rparr>"
  by (simp add: Instr_init_def set_private_def empty_slots_def check_arg_def example_module_def
      has_jump_def example_opmap_def)

theorem Instr_init_operand_category_witness:
  "Instr_init (example_module False) (PyStr ''JUMP_FORWARD'') (LabelArg 0) LinenoUnset None
     = Inr \<lparr> iname = ''JUMP_FORWARD'', iopcode = 110, iarg = LabelArg 0, ilocation = None \<rparr>
   \<and> has_jump (example_module False) 110
   \<and> is_label_or_block (LabelArg 0)"
  using Instr_init_operand_category [OF example_jump_forward] example_jump_forward
  by (simp add: has_jump_def example_module_def)

text \<open>
  Claim C7 as it is written fails on the 3.11 table: \<open>LOAD_GLOBAL\<close> is a name opcode, the
  argument below is no string, and the constructor returns.
\<close>

theorem Instr_init_name_opcode_counterexample:
  "Instr_init (example_module True) (PyStr ''LOAD_GLOBAL'')
      (PyTuple [PyBool True, PyStr ''print'']) LinenoUnset None
     = Inr \<lparr> iname = ''LOAD_GLOBAL'', iopcode = 116,
             iarg = PyTuple [PyBool True, PyStr ''print''], ilocation = None \<rparr>
   \<and> 116 \<in> set (hasname (example_module True))
   \<and> \<not> is_str (PyTuple [PyBool True, PyStr ''print''])"
  by (simp add: Instr_init_def set_private_def empty_slots_def check_arg_def example_module_def
      has_jump_def example_opmap_def)

subsection \<open>Validation before mutation\<close>

lemma set_private_safe: "mutation_safe M i (set_private M i nm a)"
proof (cases "set_private M i nm a")
  case (Pair e i')
  show ?thesis
  proof (cases e)
    case None
    with Pair set_private_returns [of M i nm a i'] show ?thesis
      by (auto simp: mutation_safe_def validated_def)
  next
    case (Some err)
    with Pair set_private_raises [of M i nm a err i'] show ?thesis
      by (simp add: mutation_safe_def)
  qed
qed

lemma opcode_setter_safe: "mutation_safe M i (opcode_setter M i opv)"
  using set_private_safe [of M i "PyStr (opname M (nat (the (int_value opv))))" "iarg i"]
  by (auto simp: opcode_setter_def Let_def mutation_safe_def split: option.splits)

text \<open>
  Claim C10. \<open>set\<close> and the setters of \<open>name\<close>, \<open>opcode\<close> and \<open>arg\<close> check the new
  name and argument before they assign: when one of them returns, the object is validated
  (its argument fits the category of its opcode); when one raises, the object is exactly as
  it was before the call.
\<close>

theorem mutators_validate_before_assigning:
  "mutation_safe M i (set_instr M i nm a)
   \<and> mutation_safe M i (name_setter M i nm)
   \<and> mutation_safe M i (opcode_setter M i opv)
   \<and> mutation_safe M i (arg_setter M i a)"
  by (simp add: set_instr_def name_setter_def arg_setter_def set_private_safe opcode_setter_safe)

theorem mutators_validate_before_assigning_witness:
  "set_instr (example_module False)
       \<lparr> iname = ''NOP'', iopcode = 9, iarg = UNSET, ilocation = None \<rparr>
       (PyStr ''LOAD_CONST'') (PyInt 3)
     = (None, \<lparr> iname = ''LOAD_CONST'', iopcode = 100, iarg = PyInt 3, ilocation = None \<rparr>)
   \<and> validated (example_module False)
       \<lparr> iname = ''LOAD_CONST'', iopcode = 100, iarg = PyInt 3, ilocation = None \<rparr>
   \<and> arg_setter (example_module False)
       \<lparr> iname = ''NOP'', iopcode = 9, iarg = UNSET, ilocation = None \<rparr> (PyInt 3)
     = (Some ValueError, \<lparr> iname = ''NOP'', iopcode = 9, iarg = UNSET, ilocation = None \<rparr>)
   \<and> opcode_setter (example_module False)
       \<lparr> iname = ''NOP'', iopcode = 9, iarg = UNSET, ilocation = None \<rparr> UNSET
     = (Some ValueError, \<lparr> iname = ''NOP'', iopcode = 9, iarg = UNSET, ilocation = None \<rparr>)
   \<and> opcode_setter cache_module
       \<lparr> iname = ''NOP'', iopcode = 9, iarg = UNSET, ilocation = None \<rparr> UNSET
     = (None, \<lparr> iname = ''CACHE'', iopcode = 0, iarg = UNSET, ilocation = None \<rparr>)
   \<and> validated cache_module
       \<lparr> iname = ''CACHE'', iopcode = 0, iarg = UNSET, ilocation = None \<rparr>"
proof -
  let ?M = "example_module False"
  let ?i = "\<lparr> iname = ''NOP'', iopcode = 9, iarg = UNSET, ilocation = None \<rparr>"
  have s: "set_instr ?M ?i (PyStr ''LOAD_CONST'') (PyInt 3)
      = (None, \<lparr> iname = ''LOAD_CONST'', iopcode = 100, iarg = PyInt 3, ilocation = None \<rparr>)"
    by (simp add: set_instr_def set_private_def check_arg_def example_module_def has_jump_def
        example_opmap_def)
  have a: "arg_setter ?M ?i (PyInt 3) = (Some ValueError, ?i)"
    by (simp add: arg_setter_def set_private_def check_arg_def example_module_def has_jump_def
        example_opmap_def)
  have u: "opcode_setter ?M ?i UNSET = (Some ValueError, ?i)"
    by code_simp
  have c: "opcode_setter cache_module ?i UNSET
      = (None, \<lparr> iname = ''CACHE'', iopcode = 0, iarg = UNSET, ilocation = None \<rparr>)"
    by (simp add: opcode_setter_def cache_module_def set_private_def check_arg_def
        example_module_def has_jump_def)
  from mutators_validate_before_assigning [of ?M ?i "PyStr ''LOAD_CONST''" "PyInt 3" UNSET]
    mutators_validate_before_assigning [of cache_module ?i "PyStr ''LOAD_CONST''" "PyInt 3" UNSET]
  show ?thesis using s a u c by (simp add: mutation_safe_def)
qed

subsection \<open>Stack effects\<close>

text \<open>
  Claim C8 as it is written fails: with the effect function of the interpreter the effect of
  \<open>FOR_ITER\<close> is \<open>-1\<close> when the branch is taken and \<open>1\<close> when it is not, and
  \<open>stack_effect\<close> without a direction returns \<open>1\<close>; it raises nothing.
\<close>

theorem stack_effect_None_counterexample:
  "stack_effect (example_module False)
      \<lparr> iname = ''FOR_ITER'', iopcode = 93, iarg = LabelArg 0, ilocation = None \<rparr> (Some True)
     = Inr (-1)
   \<and> stack_effect (example_module False)
      \<lparr> iname = ''FOR_ITER'', iopcode = 93, iarg = LabelArg 0, ilocation = None \<rparr> (Some False)
     = Inr 1
   \<and> stack_effect (example_module False)
      \<lparr> iname = ''FOR_ITER'', iopcode = 93, iarg = LabelArg 0, ilocation = None \<rparr> None
     = Inr 1"
  by (simp add: stack_effect_def example_module_def isinstance_int_def
      call_dis_stack_effect_def example_stack_effect_def example_effect_dir_def)

text \<open>
  Claim C8, as the code has it. \<open>stack_effect\<close> hands the direction, \<open>None\<close> included, to
  the effect function of the instruction-set description with the same \<open>oparg\<close> and adds no
  error of its own. With an effect function that answers \<open>None\<close> with the larger of the
  two directions' effects, \<open>stack_effect\<close> without a direction returns the larger of the
  taken and the not-taken effect of the instruction, which is their common value when they
  agree.
\<close>

theorem stack_effect_None_is_larger:
  assumes "picks_larger M"
    and "stack_effect M i (Some True) = Inr t"
    and "stack_effect M i (Some False) = Inr f"
  shows "stack_effect M i None = Inr (max t f)"
  using assms unfolding picks_larger_def stack_effect_def call_dis_stack_effect_def
  by (auto split: if_splits operand.splits option.splits)

lemma example_picks_larger: "picks_larger (example_module v)"
  by (auto simp: picks_larger_def example_module_def example_stack_effect_def Let_def
      split: if_splits option.splits)

theorem stack_effect_None_is_larger_witness:
  "picks_larger (example_module False)
   \<and> stack_effect (example_module False)
        \<lparr> iname = ''JUMP_IF_TRUE_OR_POP'', iopcode = 112, iarg = LabelArg 0, ilocation = None \<rparr>
        (Some True) = Inr 0
   \<and> stack_effect (example_module False)
        \<lparr> iname = ''JUMP_IF_TRUE_OR_POP'', iopcode = 112, iarg = LabelArg 0, ilocation = None \<rparr>
        (Some False) = Inr (-1)
   \<and> stack_effect (example_module False)
        \<lparr> iname = ''JUMP_IF_TRUE_OR_POP'', iopcode = 112, iarg = LabelArg 0, ilocation = None \<rparr>
        None = Inr 0"
proof -
  let ?M = "example_module False"
  let ?i = "\<lparr> iname = ''JUMP_IF_TRUE_OR_POP'', iopcode = 112, iarg = LabelArg 0,
               ilocation = None \<rparr>"
  have t: "stack_effect ?M ?i (Some True) = Inr 0"
    by (simp add: stack_effect_def example_module_def isinstance_int_def
        call_dis_stack_effect_def example_stack_effect_def example_effect_dir_def)
  have f: "stack_effect ?M ?i (Some False) = Inr (-1)"
    by (simp add: stack_effect_def example_module_def isinstance_int_def
        call_dis_stack_effect_def example_stack_effect_def example_effect_dir_def)
  from stack_effect_None_is_larger [OF example_picks_larger t f]
  show ?thesis using t f example_picks_larger by simp
qed

lemma static_no_entry:
  "STATIC_STACK_EFFECTS M ''UNPACK_SEQUENCE'' = None"
  "STATIC_STACK_EFFECTS M ''UNPACK_EX'' = None"
  "STATIC_STACK_EFFECTS M ''LIST_APPEND'' = None"
  "STATIC_STACK_EFFECTS M ''SET_ADD'' = None"
  "STATIC_STACK_EFFECTS M ''FOR_ITER'' = None"
  by (simp_all add: STATIC_STACK_EFFECTS_def startswith_def STATIC_literal_def)

lemma dynamic_entry:
  "DYNAMIC_STACK_EFFECTS M ''UNPACK_SEQUENCE'' = Some (\<lambda>effect a jump. Inr (-1, effect + 1))"
  "DYNAMIC_STACK_EFFECTS M ''UNPACK_EX'' = Some (\<lambda>effect a jump. Inr (-1, effect + 1))"
  "DYNAMIC_STACK_EFFECTS M ''LIST_APPEND''
     = Some (\<lambda>effect a jump. with_int_arg a (\<lambda>k. (- k, k - 1)))"
  "DYNAMIC_STACK_EFFECTS M ''SET_ADD''
     = Some (\<lambda>effect a jump. with_int_arg a (\<lambda>k. (- k, k - 1)))"
  "DYNAMIC_STACK_EFFECTS M ''FOR_ITER''
     = Some (\<lambda>effect a jump. Inr (if jump = Some True then (effect, 0) else (-1, 2)))"
  by (simp_all add: DYNAMIC_STACK_EFFECTS_def startswith_def)

text \<open>
  Claim C9 as it is written fails with the effect function of the interpreter: for
  \<open>FOR_ITER\<close> with the branch taken the pair is \<open>(-1, 0)\<close>, whose sum is not zero, and
  for \<open>UNPACK_EX\<close> with operand \<open>1\<close> the pair is \<open>(-1, 2)\<close>, two pushes and not one.
\<close>

theorem pre_and_post_counterexample:
  "pre_and_post_stack_effect (example_module False)
      \<lparr> iname = ''FOR_ITER'', iopcode = 93, iarg = LabelArg 0, ilocation = None \<rparr> (Some True)
     = Inr (-1, 0)
   \<and> pre_and_post_stack_effect (example_module False)
      \<lparr> iname = ''UNPACK_EX'', iopcode = 94, iarg = PyInt 1, ilocation = None \<rparr> None
     = Inr (-1, 2)"
  by (simp add: pre_and_post_stack_effect_def static_no_entry dynamic_entry stack_effect_def
      example_module_def isinstance_int_def call_dis_stack_effect_def example_stack_effect_def
      example_effect_dir_def)

text \<open>
  Claim C9, as the code has it. When the net effect \<open>stack_effect\<close> is \<open>effect\<close>:
  an unpack opcode gives pop 1 and push \<open>effect + 1\<close>; \<open>LIST_APPEND\<close> and \<open>SET_ADD\<close>
  with integer operand \<open>n\<close> give pop \<open>n\<close> and push \<open>n - 1\<close>; \<open>FOR_ITER\<close> gives pop 1
  and push 2 unless the branch is taken, and then the net effect before execution and no
  push; an opcode in neither table gives the net effect before execution and no push.
\<close>

theorem pre_and_post_by_table:
  assumes "stack_effect M i jump = Inr effect"
  shows "(iname i \<in> {''UNPACK_SEQUENCE'', ''UNPACK_EX''} \<longrightarrow>
            pre_and_post_stack_effect M i jump = Inr (-1, effect + 1))
     \<and> (iname i \<in> {''LIST_APPEND'', ''SET_ADD''} \<longrightarrow>
            (\<forall>n. as_int (iarg i) = Some n \<longrightarrow>
               pre_and_post_stack_effect M i jump = Inr (- n, n - 1)))
     \<and> (iname i = ''FOR_ITER'' \<longrightarrow>
            pre_and_post_stack_effect M i jump
              = Inr (if jump = Some True then (effect, 0) else (-1, 2)))
     \<and> (STATIC_STACK_EFFECTS M (iname i) = None \<and> DYNAMIC_STACK_EFFECTS M (iname i) = None \<longrightarrow>
            pre_and_post_stack_effect M i jump = Inr (effect, 0))"
  using assms
  by (auto simp: pre_and_post_stack_effect_def static_no_entry dynamic_entry with_int_arg_def)

theorem pre_and_post_by_table_witness:
  "stack_effect (example_module False)
      \<lparr> iname = ''LIST_APPEND'', iopcode = 145, iarg = PyInt 5, ilocation = None \<rparr> None
     = Inr (-1)
   \<and> pre_and_post_stack_effect (example_module False)
      \<lparr> iname = ''LIST_APPEND'', iopcode = 145, iarg = PyInt 5, ilocation = None \<rparr> None
     = Inr (-5, 4)"
proof -
  let ?M = "example_module False"
  let ?i = "\<lparr> iname = ''LIST_APPEND'', iopcode = 145, iarg = PyInt 5, ilocation = None \<rparr>"
  have e: "stack_effect ?M ?i None = Inr (-1)"
    by (simp add: stack_effect_def example_module_def isinstance_int_def
        call_dis_stack_effect_def example_stack_effect_def example_effect_dir_def)
  from pre_and_post_by_table [OF e] show ?thesis using e by simp
qed

section \<open>Properties of bytecode.py\<close>

subsection \<open>What the disassembler keeps\<close>

lemma Instr_new_fields:
  "Instr_new M ln nm a = Inr i \<Longrightarrow>
     c_lineno i = ln \<and> c_name i = nm \<and> c_arg i = a \<and> c_size i = (if a \<noteq> ArgNone then 3 else 1)
     \<and> map_of (opmap M) nm = Some (c_op i)"
  by (auto simp: Instr_new_def split: option.splits)

text \<open>
  Claim C3 as it is written fails: the bytes of an extended-operand prefix and a load
  disassemble to two instructions. The prefix stays in the graph as an instruction of its
  own and the operand of the load is 2, not \<open>1 * 65536 + 2\<close>.
\<close>

theorem disassemble_extended_arg_counterexample:
  "disassemble_blocks (example_module False) ext_code
     = Inr [(0, [\<lparr> c_lineno = 1, c_name = ''EXTENDED_ARG'', c_arg = ArgInt 1, c_size = 3,
                   c_op = 144 \<rparr>,
                 \<lparr> c_lineno = 1, c_name = ''LOAD_CONST'', c_arg = ArgInt 2, c_size = 3,
                   c_op = 100 \<rparr>])]"
  by code_simp

subsection \<open>Splitting a block\<close>

text \<open>
  Claim C5 on two blocks with equal instructions: asked to split the second block, named by
  its label 1, \<open>create_label\<close> splits the first block. The new block 2 stands behind block
  0, block 0 is cut, and block 1 is as it was.
\<close>

theorem create_label_splits_first_equal_block:
  "fst (create_label twin_code (ByLabel 1) 1) = Inr 2
   \<and> Code_iter (snd (create_label twin_code (ByLabel 1) 1))
       = [(0, [nop1]), (2, [nop1]), (1, [nop1, nop1])]"
  by (simp add: create_label_def twin_code_def Code_init_def Code_iter_def Block_eq_def
      Instr_eq_def Let_def)

text \<open>
  Claim C6 on the same graph: asked for index 0 of the block with label 1, \<open>create_label\<close>
  returns label 0, the label of the first block with equal instructions. The graph is
  unchanged.
\<close>

theorem create_label_zero_returns_first_equal_label:
  "create_label twin_code (ByLabel 1) 0 = (Inr 0, twin_code)"
  by (simp add: create_label_def twin_code_def Code_init_def Code_iter_def Block_eq_def
      Instr_eq_def Let_def)

subsection \<open>The layout and the resolution of labels\<close>

lemma Instr_wf_fields:
  "Instr_wf M i \<Longrightarrow> c_size i = (if c_arg i \<noteq> ArgNone then 3 else 1)
      \<and> map_of (opmap M) (c_name i) = Some (c_op i)"
  unfolding Instr_wf_def by (drule Instr_new_fields) simp

lemma Instr_new_wf: "Instr_new M ln nm a = Inr i \<Longrightarrow> Instr_wf M i"
  by (auto simp: Instr_wf_def Instr_new_def split: option.splits)

lemma find_targets_other:
  "l \<notin> fst ` set bs \<Longrightarrow> find_targets bs off T l = T l"
  by (induction bs off T rule: find_targets.induct) auto

lemma find_targets_distinct:
  "distinct (map fst bs) \<Longrightarrow> k < length bs \<Longrightarrow>
     find_targets bs off T (fst (bs ! k)) = Some (off + block_offset bs k)"
proof (induction bs off T arbitrary: k rule: find_targets.induct)
  case (1 off T)
  then show ?case by simp
next
  case (2 l "is" bs off T)
  show ?case
  proof (cases k)
    case 0
    with "2.prems" show ?thesis
      by (simp add: find_targets_other block_offset_def)
  next
    case (Suc k')
    with "2.prems" have d: "distinct (map fst bs)" and k': "k' < length bs" by simp_all
    have "find_targets bs (off + sum_list (map c_size is)) (T(l \<mapsto> off)) (fst (bs ! k'))
        = Some (off + sum_list (map c_size is) + block_offset bs k')"
      by (rule "2.IH"[OF d k'])
    moreover have "block_offset ((l, is) # bs) (Suc k') = sum_list (map c_size is) + block_offset bs k'"
      by (simp add: block_offset_def)
    ultimately show ?thesis using Suc by (simp add: add.assoc)
  qed
qed

lemma assemble_instrs_append:
  "assemble_instrs M T off (xs @ ys) =
     (case assemble_instrs M T off xs of
        Inl e \<Rightarrow> Inl e
      | Inr (c, l, off') \<Rightarrow>
          (case assemble_instrs M T off' ys of
             Inl e \<Rightarrow> Inl e
           | Inr (c', l', off'') \<Rightarrow> Inr (c @ c', l @ l', off'')))"
  by (induction xs arbitrary: off) (auto split: sum.splits prod.splits)

lemma assemble_blocks_flat:
  "assemble_blocks M T off bs = assemble_instrs M T off (concat (map snd bs))"
  by (induction bs arbitrary: off) (auto simp: assemble_instrs_append split: sum.splits prod.splits)

lemma assemble_instr_size:
  "Instr_wf M i \<Longrightarrow> assemble_instr M T off i = Inr (bytes, ln, sz) \<Longrightarrow>
     sz = c_size i \<and> length bytes = c_size i \<and> ln = (off, c_lineno i)"
  by (auto simp: assemble_instr_def replace_arg_def Instr_assemble_def pack_B_def pack_BH_def
      split: arg.splits option.splits sum.splits if_splits
      dest!: Instr_wf_fields Instr_new_fields)

lemma assemble_instrs_nth:
  "\<forall>i \<in> set is. Instr_wf M i \<Longrightarrow> assemble_instrs M T off is = Inr (chunks, lns, off') \<Longrightarrow>
     length chunks = length is \<and> length lns = length is
     \<and> off' = off + sum_list (map c_size is)
     \<and> (\<forall>n < length is.
           assemble_instr M T (off + instr_offset is n) (is ! n)
             = Inr (chunks ! n, lns ! n, c_size (is ! n)))"
proof (induction "is" arbitrary: off chunks lns off')
  case Nil
  then show ?case by simp
next
  case (Cons i "is")
  from Cons.prems(2) obtain bytes ln sz where a: "assemble_instr M T off i = Inr (bytes, ln, sz)"
    by (auto split: sum.splits)
  have wfi: "Instr_wf M i" using Cons.prems(1) by simp
  from assemble_instr_size[OF wfi a] have sz: "sz = c_size i" by simp
  from Cons.prems(2) a obtain c1 l1 where
    r: "assemble_instrs M T (off + sz) is = Inr (c1, l1, off')"
    and e: "chunks = bytes # c1" "lns = ln # l1"
    by (auto split: sum.splits)
  from Cons.prems(1) have wf: "\<forall>i \<in> set is. Instr_wf M i" by simp
  note IH = Cons.IH[OF wf r]
  show ?case
  proof (intro conjI allI impI)
    show "length chunks = length (i # is)" using IH e by simp
    show "length lns = length (i # is)" using IH e by simp
    show "off' = off + sum_list (map c_size (i # is))" using IH sz by simp
  next
    fix n assume n: "n < length (i # is)"
    show "assemble_instr M T (off + instr_offset (i # is) n) ((i # is) ! n)
             = Inr (chunks ! n, lns ! n, c_size ((i # is) ! n))"
    proof (cases n)
      case 0
      with a sz e show ?thesis by (simp add: instr_offset_def)
    next
      case (Suc m)
      with n IH e sz show ?thesis by (simp add: instr_offset_def add.assoc)
    qed
  qed
qed

lemma concat_drop_take:
  "n < length chunks \<Longrightarrow>
     take (length (chunks ! n)) (drop (sum_list (map length (take n chunks))) (concat chunks)) = chunks ! n"
proof (induction chunks arbitrary: n)
  case Nil
  then show ?case by simp
next
  case (Cons c cs)
  then show ?case by (cases n) auto
qed


lemma sum_list_length_chunks:
  assumes "\<forall>i \<in> set is. Instr_wf M i"
    and "assemble_instrs M T off is = Inr (chunks, lns, off')"
  shows "map length chunks = map c_size is"
proof (rule nth_equalityI)
  from assemble_instrs_nth[OF assms] show "length (map length chunks) = length (map c_size is)"
    by simp
next
  fix n assume "n < length (map length chunks)"
  with assemble_instrs_nth[OF assms] have n: "n < length is" and
    a: "assemble_instr M T (off + instr_offset is n) (is ! n)
             = Inr (chunks ! n, lns ! n, c_size (is ! n))" by auto
  from assms(1) n have "Instr_wf M (is ! n)" by simp
  from assemble_instr_size[OF this, of T "off + instr_offset is n" "chunks ! n" "lns ! n" "c_size (is ! n)"] a
  have "length (chunks ! n) = c_size (is ! n)" by (cases "lns ! n") auto
  with n assemble_instrs_nth[OF assms] show "map length chunks ! n = map c_size is ! n" by simp
qed

lemma assemble_instr_label:
  assumes "Instr_wf M i" and "c_arg i = ArgLabel l" and "T l = Some t"
    and "assemble_instr M T off i = Inr (bytes, ln, sz)"
  shows "let v = (if c_op i \<in> set (hasjrel M) then int t - (int off + int (c_size i)) else int t)
         in 0 \<le> v \<and> v \<le> 65535 \<and> bytes = [c_op i, nat v mod 256, nat v div 256]"
  using assms
  by (auto simp: assemble_instr_def replace_arg_def Instr_assemble_def pack_BH_def Let_def Instr_new_def
      split: option.splits sum.splits if_splits dest!: Instr_wf_fields)

text \<open>
  Claim C2. In the bytes that \<open>assemble\<close> returns, an instruction whose argument is the
  label of block \<open>k\<close> is encoded at its layout offset as its opcode and a 16-bit operand
  \<open>v\<close>: for an opcode of \<open>hasjrel\<close>, \<open>v\<close> is the offset of block \<open>k\<close> minus the sum
  of the offset and the size of the instruction; otherwise \<open>v\<close> is the offset of block
  \<open>k\<close>.
\<close>

theorem assemble_resolves_labels:
  assumes asm: "Code_assemble M c = Inr out"
    and wf: "\<forall>i \<in> set (concat (map snd (Code_iter c))). Instr_wf M i"
    and dist: "distinct (map fst (Code_iter c))"
    and n: "n < length (concat (map snd (Code_iter c)))"
    and k: "k < length (Code_iter c)"
    and lab: "c_arg (concat (map snd (Code_iter c)) ! n) = ArgLabel (fst (Code_iter c ! k))"
  shows "let i = concat (map snd (Code_iter c)) ! n;
             off = instr_offset (concat (map snd (Code_iter c))) n;
             t = block_offset (Code_iter c) k;
             v = (if c_op i \<in> set (hasjrel M) then int t - (int off + int (c_size i)) else int t)
         in 0 \<le> v \<and> v \<le> 65535
            \<and> take 3 (drop off (co_code out)) = [c_op i, nat v mod 256, nat v div 256]"
proof -
  let ?bs = "Code_iter c"
  let ?flat = "concat (map snd ?bs)"
  let ?T = "find_targets ?bs 0 Map.empty"
  from asm obtain chunks lns off' where
    a: "assemble_instrs M ?T 0 ?flat = Inr (chunks, lns, off')" and
    code: "co_code out = concat chunks"
    by (auto simp: Code_assemble_def assemble_block_list_def Let_def assemble_blocks_flat
        split: sum.splits prod.splits)
  note nth = assemble_instrs_nth[OF wf a]
  from nth n have an: "assemble_instr M ?T (instr_offset ?flat n) (?flat ! n)
             = Inr (chunks ! n, lns ! n, c_size (?flat ! n))" by simp
  have wfn: "Instr_wf M (?flat ! n)" using wf n nth_mem by blast
  have T: "?T (fst (?bs ! k)) = Some (block_offset ?bs k)"
    using find_targets_distinct[OF dist k, of 0 Map.empty] by simp
  note r = assemble_instr_label[OF wfn lab T an]
  have len: "map length chunks = map c_size ?flat" by (rule sum_list_length_chunks[OF wf a])
  have l3: "length (chunks ! n) = 3" using r by (auto simp: Let_def)
  have nc: "n < length chunks" using nth n by simp
  have "sum_list (map length (take n chunks)) = instr_offset ?flat n"
    unfolding instr_offset_def using len by (simp add: take_map[symmetric])
  with concat_drop_take[OF nc] l3 code
  have "take 3 (drop (instr_offset ?flat n) (co_code out)) = chunks ! n" by simp
  with r show ?thesis by (simp add: Let_def)
qed

lemma spec_iter: "Code_iter spec_example_code = [(0, \<lparr> c_lineno = 1, c_name = ''J'', c_arg = ArgLabel 1, c_size = 3, c_op = 10 \<rparr>
              # replicate 37 nop1),
        (1, [nop1])]"
  by (simp add: Code_iter_def spec_example_code_def Code_init_def)

lemma spec_asm: "Code_assemble spec_example_module spec_example_code
   = Inr \<lparr> co_code = [10, 37, 0] @ replicate 38 9, co_firstlineno = 1,
           co_lnotab = 3 # 0 # concat (replicate 37 [1, 0]) \<rparr>"
  by code_simp

lemma spec_wf: "\<forall>i \<in> set (concat (map snd (Code_iter spec_example_code))). Instr_wf spec_example_module i"
  by (auto simp: spec_iter Instr_wf_def Instr_new_def spec_example_module_def example_module_def nop1_def)

text \<open>
  The example of the specification: the relative jump of size 3 at offset 0 to the block at
  offset 40 is encoded with the operand 37.
\<close>

theorem assemble_resolves_labels_witness:
  "Code_assemble spec_example_module spec_example_code
     = Inr \<lparr> co_code = [10, 37, 0] @ replicate 38 9, co_firstlineno = 1,
             co_lnotab = 3 # 0 # concat (replicate 37 [1, 0]) \<rparr>
   \<and> block_offset (Code_iter spec_example_code) 1 = 40
   \<and> instr_offset (concat (map snd (Code_iter spec_example_code))) 0 = 0
   \<and> take 3 (co_code \<lparr> co_code = [10, 37, 0] @ replicate 38 9, co_firstlineno = 1,
             co_lnotab = 3 # 0 # concat (replicate 37 [1, 0]) \<rparr>) = [10, 37, 0]"
proof -
  have d: "distinct (map fst (Code_iter spec_example_code))" by (simp add: spec_iter)
  have n: "0 < length (concat (map snd (Code_iter spec_example_code)))" by (simp add: spec_iter)
  have k: "1 < length (Code_iter spec_example_code)" by (simp add: spec_iter)
  have l: "c_arg (concat (map snd (Code_iter spec_example_code)) ! 0)
      = ArgLabel (fst (Code_iter spec_example_code ! 1))" by (simp add: spec_iter)
  have b: "block_offset (Code_iter spec_example_code) 1 = 40"
    by (simp add: spec_iter block_offset_def nop1_def sum_list_replicate)
  from assemble_resolves_labels [OF spec_asm spec_wf d n k l] show ?thesis
    using spec_asm b by (simp add: instr_offset_def)
qed

subsection \<open>The line table\<close>

text \<open>
  Claim C4 on two instructions 199 lines apart. The assembler writes the filler entry
  \<open>(0, 126)\<close> before the entry \<open>(1, 73)\<close> that carries the offset increment, so the filler
  belongs to the address of the first instruction: decoding the table gives line 127 at
  offset 0, where the instruction has line 1. Both the address-to-line lookup and the
  disassembler fed with the line starts of the interpreter read 127.
\<close>

theorem lnotab_filler_moves_previous_line:
  "Code_assemble (example_module False) far_lines_code
     = Inr \<lparr> co_code = [9, 9], co_firstlineno = 1, co_lnotab = [0, 126, 1, 73] \<rparr>
   \<and> addr2line [0, 126, 1, 73] 0 1 0 = 127
   \<and> addr2line [0, 126, 1, 73] 0 1 1 = 200
   \<and> disassemble_blocks (example_module False)
         \<lparr> co_code = [9, 9], co_firstlineno = 1, co_lnotab = [0, 126, 1, 73] \<rparr>
       = Inr [(0, [nop1\<lparr> c_lineno := 127 \<rparr>, nop1\<lparr> c_lineno := 200 \<rparr>])]"
  by code_simp

subsection \<open>Assembling, disassembling and assembling again\<close>

lemma assemble_instr_iff:
  assumes "Instr_wf M i"
  shows "assemble_instr M T off i = Inr (bytes, ln, sz) \<longleftrightarrow>
     (encodable (c_op i, resolved_arg M T off i)
      \<and> bytes = encode (c_op i, resolved_arg M T off i)
      \<and> ln = (off, c_lineno i) \<and> sz = c_size i)"
proof -
  from Instr_wf_fields[OF assms] have
    sz: "c_size i = (if c_arg i \<noteq> ArgNone then 3 else 1)" and
    op: "map_of (opmap M) (c_name i) = Some (c_op i)" by simp_all
  show ?thesis
  proof (cases "c_arg i")
    case ArgNone
    then show ?thesis
      by (auto simp: assemble_instr_def Instr_assemble_def pack_B_def resolved_arg_def encodable_def)
  next
    case (ArgInt n)
    then show ?thesis
      by (auto simp: assemble_instr_def Instr_assemble_def pack_BH_def resolved_arg_def encodable_def)
  next
    case (ArgLabel l)
    show ?thesis
    proof (cases "T l")
      case None
      with ArgLabel show ?thesis
        by (auto simp: assemble_instr_def resolved_arg_def encodable_def)
    next
      case (Some t)
      with ArgLabel sz op show ?thesis
        by (auto simp: assemble_instr_def replace_arg_def Instr_new_def Instr_assemble_def
            pack_BH_def resolved_arg_def encodable_def)
    qed
  qed
qed

lemma assemble_instrs_iff:
  assumes "\<forall>i \<in> set is. Instr_wf M i"
  shows "assemble_instrs M T off is = Inr (chunks, lns, off') \<longleftrightarrow>
     ((\<forall>r \<in> set (raws M T off is). encodable r)
      \<and> chunks = map encode (raws M T off is)
      \<and> lns = linenos_of off is
      \<and> off' = off + sum_list (map c_size is))"
  using assms
proof (induction "is" arbitrary: off chunks lns off')
  case Nil
  then show ?case by auto
next
  case (Cons i "is")
  have wfi: "Instr_wf M i" and wf: "\<forall>i \<in> set is. Instr_wf M i" using Cons.prems by simp_all
  note IH = Cons.IH[OF wf]
  show ?case
  proof
    assume a: "assemble_instrs M T off (i # is) = Inr (chunks, lns, off')"
    then obtain bytes ln sz where a1: "assemble_instr M T off i = Inr (bytes, ln, sz)"
      by (auto split: sum.splits)
    with a obtain c1 l1 where r: "assemble_instrs M T (off + sz) is = Inr (c1, l1, off')"
      and e: "chunks = bytes # c1" "lns = ln # l1"
      by (auto split: sum.splits)
    from a1 assemble_instr_iff[OF wfi] have f: "encodable (c_op i, resolved_arg M T off i)"
      "bytes = encode (c_op i, resolved_arg M T off i)" "ln = (off, c_lineno i)" "sz = c_size i"
      by simp_all
    from r IH[of "off + sz" c1 l1 off'] f e show "(\<forall>r \<in> set (raws M T off (i # is)). encodable r)
      \<and> chunks = map encode (raws M T off (i # is))
      \<and> lns = linenos_of off (i # is)
      \<and> off' = off + sum_list (map c_size (i # is))" by simp
  next
    assume h: "(\<forall>r \<in> set (raws M T off (i # is)). encodable r)
      \<and> chunks = map encode (raws M T off (i # is))
      \<and> lns = linenos_of off (i # is)
      \<and> off' = off + sum_list (map c_size (i # is))"
    then have a1: "assemble_instr M T off i
        = Inr (encode (c_op i, resolved_arg M T off i), (off, c_lineno i), c_size i)"
      using assemble_instr_iff[OF wfi] by simp
    from h have "assemble_instrs M T (off + c_size i) is
        = Inr (map encode (raws M T (off + c_size i) is), linenos_of (off + c_size i) is, off')"
      using IH[of "off + c_size i" "map encode (raws M T (off + c_size i) is)"
               "linenos_of (off + c_size i) is" off'] by (simp add: add.assoc)
    with a1 h show "assemble_instrs M T off (i # is) = Inr (chunks, lns, off')" by simp
  qed
qed

lemma doff_loop_small: "doff \<le> 255 \<Longrightarrow> doff_loop doff = ([], doff)"
  by (simp add: doff_loop.simps)

lemma dlineno_neg_loop_range:
  "dlineno_neg_loop d = (es, d') \<Longrightarrow> -127 \<le> d' \<and> (d < -127 \<longrightarrow> d' < 0) \<and> (-127 \<le> d \<longrightarrow> d' = d)"
proof (induction d arbitrary: es d' rule: dlineno_neg_loop.induct)
  case (1 d)
  show ?case
  proof (cases "d < -127")
    case True
    obtain es1 d1 where r: "dlineno_neg_loop (d - (-127)) = (es1, d1)"
      by (cases "dlineno_neg_loop (d - (-127))")
    with "1.prems" True have e: "d' = d1"
      by (simp add: dlineno_neg_loop.simps[of d])
    from "1.IH"[OF True r] True e show ?thesis by auto
  next
    case False
    with "1.prems" show ?thesis by (simp add: dlineno_neg_loop.simps[of d])
  qed
qed

lemma dlineno_pos_loop_range:
  "dlineno_pos_loop d = (es, d') \<Longrightarrow> d' \<le> 126 \<and> (126 < d \<longrightarrow> 0 < d') \<and> (d \<le> 126 \<longrightarrow> d' = d)"
proof (induction d arbitrary: es d' rule: dlineno_pos_loop.induct)
  case (1 d)
  show ?case
  proof (cases "126 < d")
    case True
    obtain es1 d1 where r: "dlineno_pos_loop (d - 126) = (es1, d1)"
      by (cases "dlineno_pos_loop (d - 126)")
    with "1.prems" True have e: "d' = d1"
      by (simp add: dlineno_pos_loop.simps[of d])
    from "1.IH"[OF True r] True e show ?thesis by auto
  next
    case False
    with "1.prems" show ?thesis by (simp add: dlineno_pos_loop.simps[of d])
  qed
qed

lemma lnotab_entry_returns:
  assumes "0 \<le> doff" "doff \<le> 255"
  shows "\<exists>es. lnotab_entry doff dl = Inr es"
proof -
  obtain es2 d1 where n: "dlineno_neg_loop dl = (es2, d1)" by (cases "dlineno_neg_loop dl")
  obtain es3 d2 where p: "dlineno_pos_loop d1 = (es3, d2)" by (cases "dlineno_pos_loop d1")
  from dlineno_neg_loop_range[OF n] dlineno_pos_loop_range[OF p]
  have "-127 \<le> d2 \<and> d2 \<le> 126" by auto
  with assms n p show ?thesis
    by (simp add: lnotab_entry_def doff_loop_small pack_Bb_def)
qed

lemma lnotab_loop_returns:
  assumes "\<forall>i \<in> set is. c_size i \<le> 255" "old \<le> off" "off - old \<le> 255"
  shows "\<exists>tab. lnotab_loop old ln0 (linenos_of off is) = Inr tab"
  using assms
proof (induction "is" arbitrary: old off ln0)
  case Nil
  then show ?case by simp
next
  case (Cons i "is")
  from Cons.prems have "0 \<le> int off - int old" "int off - int old \<le> 255" by auto
  from lnotab_entry_returns[OF this] obtain es where
    e: "lnotab_entry (int off - int old) (c_lineno i - ln0) = Inr es" by blast
  from Cons.prems have "\<forall>i \<in> set is. c_size i \<le> 255" "off \<le> off + c_size i"
    "off + c_size i - off \<le> 255" by auto
  from Cons.IH[OF this] obtain tab where
    "lnotab_loop off (c_lineno i) (linenos_of (off + c_size i) is) = Inr tab" by blast
  with e show ?case by simp
qed

lemma Code_iter_Code_init:
  assumes "distinct (map fst bs)"
  shows "Code_iter (Code_init co bs) = bs"
proof -
  have d: "distinct (map fst (rev bs))"
    unfolding rev_map[symmetric] using assms by simp
  have "map ((\<lambda>l. (l, case map_of (rev bs) l of Some is \<Rightarrow> is | None \<Rightarrow> [])) \<circ> fst) bs = bs"
  proof (rule map_idI)
    fix x assume x: "x \<in> set bs"
    obtain l "is" where e: "x = (l, is)" by (cases x)
    with x have "(l, is) \<in> set (rev bs)" by simp
    from map_of_is_SomeI[OF d this] e
    show "((\<lambda>l. (l, case map_of (rev bs) l of Some is \<Rightarrow> is | None \<Rightarrow> [])) \<circ> fst) x = x"
      by simp
  qed
  then show ?thesis by (simp add: Code_iter_def Code_init_def)
qed

lemma drop_eq_ConsD:
  "drop n xs = y # ys \<Longrightarrow> n < length xs \<and> xs ! n = y \<and> drop (Suc n) xs = ys"
proof (induction xs arbitrary: n)
  case Nil
  then show ?case by simp
next
  case (Cons x xs)
  then show ?case by (cases n) auto
qed

lemma decode_at:
  assumes d: "drop off code = encode r @ rest" and ok: "raw_ok M r"
  shows "Instr_disassemble M ln code off
           = Inr \<lparr> c_lineno = ln, c_name = opname M (fst r), c_arg = snd r,
                   c_size = raw_size r, c_op = fst r \<rparr>
         \<and> off < length code \<and> drop (off + raw_size r) code = rest"
proof (cases r)
  case (Pair opc a)
  from ok Pair have enc: "encodable (opc, a)" and ar: "a = ArgNone \<longleftrightarrow> opc < HAVE_ARGUMENT M"
    and nm: "map_of (opmap M) (opname M opc) = Some opc"
    by (simp_all add: raw_ok_def)
  show ?thesis
  proof (cases a)
    case ArgNone
    with d Pair have "drop off code = opc # rest" by simp
    from drop_eq_ConsD[OF this] have "off < length code" "code ! off = opc"
      "drop (Suc off) code = rest" by simp_all
    with ArgNone ar nm Pair show ?thesis
      by (simp add: Instr_disassemble_def Instr_new_def raw_size_def)
  next
    case (ArgInt n)
    with enc have n: "0 \<le> n" "n \<le> 65535" by (simp_all add: encodable_def)
    from d Pair ArgInt have d0: "drop off code = opc # nat n mod 256 # nat n div 256 # rest" by simp
    from drop_eq_ConsD[OF d0] have 0: "off < length code" "code ! off = opc"
      and d1: "drop (Suc off) code = nat n mod 256 # nat n div 256 # rest" by simp_all
    from drop_eq_ConsD[OF d1] have 1: "Suc off < length code" "code ! Suc off = nat n mod 256"
      and d2: "drop (Suc (Suc off)) code = nat n div 256 # rest" by simp_all
    from drop_eq_ConsD[OF d2] have 2: "Suc (Suc off) < length code"
      "code ! Suc (Suc off) = nat n div 256"
      and d3: "drop (Suc (Suc (Suc off))) code = rest" by simp_all
    have "int (nat n mod 256 + nat n div 256 * 256) = n" using n by simp
    with 0 1 2 d3 ArgInt ar nm Pair show ?thesis
      by (simp add: Instr_disassemble_def Instr_new_def raw_size_def Let_def
          numeral_3_eq_3 numeral_2_eq_2)
  next
    case (ArgLabel l)
    with enc show ?thesis by (simp add: encodable_def)
  qed
qed

lemma scan_encoded:
  assumes "drop off code = concat (map encode rs)" and "\<forall>r \<in> set rs. raw_ok M r"
  shows "\<exists>is. scan M ls code off ln = Inr (is, raw_targets M off rs)
           \<and> map raw_of is = rs \<and> (\<forall>i \<in> set is. Instr_wf M i)"
  using assms
proof (induction rs arbitrary: off ln)
  case Nil
  then have "\<not> off < length code" by simp
  then show ?case by (simp add: scan.simps[of M ls code off ln])
next
  case (Cons r rs)
  have ok: "raw_ok M r" and oks: "\<forall>r \<in> set rs. raw_ok M r" using Cons.prems by simp_all
  from Cons.prems have d: "drop off code = encode r @ concat (map encode rs)" by simp
  let ?i = "\<lambda>ln. \<lparr> c_lineno = ln, c_name = opname M (fst r), c_arg = snd r,
                   c_size = raw_size r, c_op = fst r \<rparr>"
  from decode_at[OF d ok] have dis: "Instr_disassemble M ln code off = Inr (?i ln)"
    and lt: "off < length code" and rest: "drop (off + raw_size r) code = concat (map encode rs)"
    by simp_all
  from ok have nm: "map_of (opmap M) (opname M (fst r)) = Some (fst r)"
    and enc: "encodable r" and ar: "snd r = ArgNone \<longleftrightarrow> fst r < HAVE_ARGUMENT M"
    by (simp_all add: raw_ok_def)
  have new: "\<And>l. Instr_new M l (opname M (fst r)) (snd r) = Inr (?i l)"
    using nm by (simp add: Instr_new_def raw_size_def)
  define ln1 where "ln1 = (case ls off of Some l \<Rightarrow> l | None \<Rightarrow> ln)"
  have c: "(case ls off of
               Some ln' \<Rightarrow>
                 (case Instr_new M ln' (c_name (?i ln)) (c_arg (?i ln)) of
                    Inl e \<Rightarrow> Inl e
                  | Inr instr' \<Rightarrow> Inr (ln', instr'))
             | None \<Rightarrow> Inr (ln, ?i ln)) = Inr (ln1, ?i ln1)"
    using new by (simp add: ln1_def split: option.splits)
  have wfi: "Instr_wf M (?i ln1)" using new by (simp add: Instr_wf_def)
  have jt: "get_jump_target M (?i ln1) off = Inr (raw_target M off r)"
    using ok enc
    by (cases "snd r")
       (auto simp: get_jump_target_def raw_target_def raw_ok_def encodable_def raw_size_def)
  from Cons.IH[OF rest oks, of ln1] obtain is1 where
    sc: "scan M ls code (off + raw_size r) ln1 = Inr (is1, raw_targets M (off + raw_size r) rs)"
    and m: "map raw_of is1 = rs" and wfs: "\<forall>i \<in> set is1. Instr_wf M i" by blast
  have "scan M ls code off ln = Inr (?i ln1 # is1, raw_targets M off (r # rs))"
    using lt dis c jt sc
    by (simp add: scan.simps[of M ls code off ln] split: option.splits)
  moreover have "raw_of (?i ln1) = r" by (simp add: raw_of_def)
  ultimately show ?case using m wfs wfi by simp
qed

lemma split_blocks_step:
  "split_blocks S (i # is) off bs bm =
     (case split_step S i off (bs, bm) of (bs2, bm1) \<Rightarrow> split_blocks S is (off + c_size i) bs2 bm1)"
  by (simp add: split_step_def Let_def split: prod.splits)

lemma block_offset_append:
  "l \<le> length bs \<Longrightarrow> block_offset (bs @ cs) l = block_offset bs l"
  by (simp add: block_offset_def)

lemma block_offset_length:
  "block_offset bs (length bs) = sum_list (map c_size (concat (map snd bs)))"
  by (simp add: block_offset_def)

lemma split_step_new:
  assumes inv: "split_inv bs bm off" and new: "off \<noteq> 0 \<and> int off \<in> S"
  shows "split_step S i off (bs, bm) = (bs @ [(length bs, [i])], bm(int off \<mapsto> length bs))
     \<and> split_inv (bs @ [(length bs, [i])]) (bm(int off \<mapsto> length bs)) (off + c_size i)"
proof -
  have st: "split_step S i off (bs, bm) = (bs @ [(length bs, [i])], bm(int off \<mapsto> length bs))"
    using new by (simp add: split_step_def)
  from inv have i1: "bs \<noteq> []" and i2: "map fst bs = [0..<length bs]"
    and i3: "off = sum_list (map c_size (concat (map snd bs)))"
    and i4: "\<And>t l. bm t = Some l \<Longrightarrow> l < length bs \<and> t = int (block_offset bs l)"
    by (auto simp: split_inv_def)
  have "split_inv (bs @ [(length bs, [i])]) (bm(int off \<mapsto> length bs)) (off + c_size i)"
    unfolding split_inv_def
  proof (intro conjI allI impI)
    show "bs @ [(length bs, [i])] \<noteq> []" by simp
    show "map fst (bs @ [(length bs, [i])]) = [0..<length (bs @ [(length bs, [i])])]"
      using i2 by simp
    show "off + c_size i = sum_list (map c_size (concat (map snd (bs @ [(length bs, [i])]))))"
      using i3 by simp
  next
    fix t l assume h: "(bm(int off \<mapsto> length bs)) t = Some l"
    show "l < length (bs @ [(length bs, [i])])"
      using h i4[of t l] by (auto split: if_splits)
    show "t = int (block_offset (bs @ [(length bs, [i])]) l)"
    proof (cases "t = int off")
      case True
      with h have "l = length bs" by simp
      with True i3 show ?thesis by (simp add: block_offset_append block_offset_length)
    next
      case False
      with h have "bm t = Some l" by simp
      from i4[OF this] show ?thesis by (simp add: block_offset_append)
    qed
  qed
  with st show ?thesis by simp
qed

lemma split_step_same:
  assumes inv: "split_inv bs bm off" and same: "\<not> (off \<noteq> 0 \<and> int off \<in> S)"
  shows "\<exists>bs2. split_step S i off (bs, bm) = (bs2, bm)
     \<and> split_inv bs2 bm (off + c_size i) \<and> length bs2 = length bs
     \<and> concat (map snd bs2) = concat (map snd bs) @ [i] \<and> snd (last bs2) \<noteq> []"
proof -
  from inv have i1: "bs \<noteq> []" and i2: "map fst bs = [0..<length bs]"
    and i3: "off = sum_list (map c_size (concat (map snd bs)))"
    and i4: "\<And>t l. bm t = Some l \<Longrightarrow> l < length bs \<and> t = int (block_offset bs l)"
    by (auto simp: split_inv_def)
  from i1 obtain ys y where bs: "bs = ys @ [y]" by (cases bs rule: rev_cases) auto
  let ?bs2 = "ys @ [(fst y, snd y @ [i])]"
  have st: "split_step S i off (bs, bm) = (?bs2, bm)"
    using same bs by (auto simp: split_step_def)
  have "split_inv ?bs2 bm (off + c_size i)"
    unfolding split_inv_def
  proof (intro conjI allI impI)
    show "?bs2 \<noteq> []" by simp
    show "map fst ?bs2 = [0..<length ?bs2]" using i2 bs by simp
    show "off + c_size i = sum_list (map c_size (concat (map snd ?bs2)))" using i3 bs by simp
  next
    fix t l assume h: "bm t = Some l"
    from i4[OF h] bs have l: "l \<le> length ys" and t: "t = int (block_offset (ys @ [y]) l)" by auto
    show "l < length ?bs2" using l by simp
    show "t = int (block_offset ?bs2 l)" using t l by (simp add: block_offset_append)
  qed
  with st bs show ?thesis by auto
qed

lemma split_step_inv:
  assumes inv: "split_inv bs bm off"
  shows "\<exists>bs2 bm1. split_step S i off (bs, bm) = (bs2, bm1)
     \<and> split_inv bs2 bm1 (off + c_size i)
     \<and> (\<forall>t. bm t \<noteq> None \<longrightarrow> bm1 t \<noteq> None)
     \<and> (off \<noteq> 0 \<and> int off \<in> S \<longrightarrow> bm1 (int off) \<noteq> None)
     \<and> concat (map snd bs2) = concat (map snd bs) @ [i] \<and> snd (last bs2) \<noteq> []"
proof (cases "off \<noteq> 0 \<and> int off \<in> S")
  case True
  from split_step_new[OF inv True, of i] show ?thesis by auto
next
  case False
  from split_step_same[OF inv False, of i] show ?thesis using False by auto
qed

lemma split_blocks_inv:
  assumes "split_inv bs bm off" and "split_blocks S is off bs bm = (bs', bm')"
  shows "split_inv bs' bm' (off + sum_list (map c_size is))
     \<and> concat (map snd bs') = concat (map snd bs) @ is
     \<and> (\<forall>t. bm t \<noteq> None \<longrightarrow> bm' t \<noteq> None)
     \<and> (\<forall>m < length is. off + instr_offset is m \<noteq> 0 \<and> int (off + instr_offset is m) \<in> S
            \<longrightarrow> bm' (int (off + instr_offset is m)) \<noteq> None)
     \<and> (is \<noteq> [] \<or> snd (last bs) \<noteq> [] \<longrightarrow> snd (last bs') \<noteq> [])"
  using assms
proof (induction "is" arbitrary: off bs bm)
  case Nil
  then show ?case by simp
next
  case (Cons i "is")
  from split_step_inv[OF Cons.prems(1), of S i] obtain bs2 bm1 where
    st: "split_step S i off (bs, bm) = (bs2, bm1)"
    and inv2: "split_inv bs2 bm1 (off + c_size i)"
    and mono: "\<forall>t. bm t \<noteq> None \<longrightarrow> bm1 t \<noteq> None"
    and here: "off \<noteq> 0 \<and> int off \<in> S \<longrightarrow> bm1 (int off) \<noteq> None"
    and cc: "concat (map snd bs2) = concat (map snd bs) @ [i]"
    and ne: "snd (last bs2) \<noteq> []" by blast
  from Cons.prems(2) st have r: "split_blocks S is (off + c_size i) bs2 bm1 = (bs', bm')"
    by (simp add: split_blocks_step del: split_blocks.simps)
  note IH = Cons.IH[OF inv2 r]
  show ?case
  proof (intro conjI allI impI)
    show "split_inv bs' bm' (off + sum_list (map c_size (i # is)))"
      using IH by (simp add: add.assoc)
    show "concat (map snd bs') = concat (map snd bs) @ i # is" using IH cc by simp
    show "snd (last bs') \<noteq> []" using IH ne by simp
  next
    fix t assume "bm t \<noteq> None"
    with mono IH show "bm' t \<noteq> None" by blast
  next
    fix m assume m: "m < length (i # is)"
      and h: "off + instr_offset (i # is) m \<noteq> 0 \<and> int (off + instr_offset (i # is) m) \<in> S"
    show "bm' (int (off + instr_offset (i # is) m)) \<noteq> None"
    proof (cases m)
      case 0
      with h here have "bm1 (int off) \<noteq> None" by (simp add: instr_offset_def)
      with IH 0 show ?thesis by (simp add: instr_offset_def)
    next
      case (Suc k)
      have e: "off + instr_offset (i # is) m = (off + c_size i) + instr_offset is k"
        using Suc by (simp add: instr_offset_def)
      from m Suc have k: "k < length is" by simp
      from IH have "\<forall>m < length is. (off + c_size i) + instr_offset is m \<noteq> 0
            \<and> int ((off + c_size i) + instr_offset is m) \<in> S
            \<longrightarrow> bm' (int ((off + c_size i) + instr_offset is m)) \<noteq> None" by blast
      with k have "(off + c_size i) + instr_offset is k \<noteq> 0
            \<and> int ((off + c_size i) + instr_offset is k) \<in> S
            \<longrightarrow> bm' (int ((off + c_size i) + instr_offset is k)) \<noteq> None" by blast
      with h show ?thesis unfolding e by blast
    qed
  qed
qed

lemma split_inv_init: "split_inv [(0, [])] [0 \<mapsto> 0] 0"
  by (auto simp: split_inv_def block_offset_def split: if_splits)

lemma decoded_size: "decoded_ok M d \<Longrightarrow> c_size d = raw_size (raw_of d)"
  by (auto simp: decoded_ok_def raw_size_def raw_of_def dest!: Instr_wf_fields)

lemma decoded_jump_target:
  assumes "decoded_ok M d"
  shows "get_jump_target M d off = Inr (raw_target M off (raw_of d))"
proof -
  from assms have sz: "c_size d = (if c_arg d \<noteq> ArgNone then 3 else 1)"
    by (auto simp: decoded_ok_def dest!: Instr_wf_fields)
  from assms have "encodable (c_op d, c_arg d)"
    "c_op d \<in> set (hasjrel M) \<longrightarrow> c_arg d \<noteq> ArgNone"
    by (auto simp: decoded_ok_def raw_ok_def raw_of_def)
  with sz show ?thesis
    by (cases "c_arg d")
       (auto simp: get_jump_target_def raw_target_def raw_of_def encodable_def)
qed

lemma decoded_replace_label:
  assumes "decoded_ok M d" and "raw_target M off (raw_of d) = Some t"
  shows "replace_arg M d (ArgLabel l) = Inr (d\<lparr> c_arg := ArgLabel l \<rparr>)"
proof -
  from assms(1) have sz: "c_size d = (if c_arg d \<noteq> ArgNone then 3 else 1)"
    and op: "map_of (opmap M) (c_name d) = Some (c_op d)"
    by (auto simp: decoded_ok_def dest!: Instr_wf_fields)
  from assms(2) have "c_arg d \<noteq> ArgNone"
    by (auto simp: raw_target_def raw_of_def split: arg.splits)
  with sz op show ?thesis by (simp add: replace_arg_def Instr_new_def)
qed

lemma relabel_instrs_returns:
  assumes "\<forall>d \<in> set ds. decoded_ok M d"
    and "\<forall>t \<in> raw_targets M off (map raw_of ds). bm t \<noteq> None"
  shows "relabel_instrs M bm off ds = Inr (relabelled M bm off ds, off + sum_list (map c_size ds))"
  using assms
proof (induction ds arbitrary: off)
  case Nil
  then show ?case by simp
next
  case (Cons d ds)
  have ok: "decoded_ok M d" and oks: "\<forall>d \<in> set ds. decoded_ok M d" using Cons.prems(1) by simp_all
  have kn: "\<forall>t \<in> raw_targets M (off + c_size d) (map raw_of ds). bm t \<noteq> None"
    using Cons.prems(2) decoded_size[OF ok] by simp
  note IH = Cons.IH[OF oks kn]
  show ?case
  proof (cases "raw_target M off (raw_of d)")
    case None
    with decoded_jump_target[OF ok, of off] IH show ?thesis by (simp add: add.assoc)
  next
    case (Some t)
    with Cons.prems(2) obtain l where l: "bm t = Some l" by auto
    from decoded_jump_target[OF ok, of off] Some l decoded_replace_label[OF ok Some, of l] IH
    show ?thesis by (simp add: add.assoc)
  qed
qed

lemma raw_targets_append:
  "raw_targets M off (xs @ ys) = raw_targets M off xs \<union> raw_targets M (off + sum_list (map raw_size xs)) ys"
  by (induction xs arbitrary: off) (auto simp: add.assoc)

lemma relabelled_append:
  "relabelled M bm off (xs @ ys) = relabelled M bm off xs @ relabelled M bm (off + sum_list (map c_size xs)) ys"
  by (induction xs arbitrary: off) (auto simp: add.assoc)

lemma relabelled_size: "map c_size (relabelled M bm off ds) = map c_size ds"
  by (induction ds arbitrary: off) (auto split: option.splits)

lemma relabelled_blocks_concat:
  "concat (map snd (relabelled_blocks M bm off bs)) = relabelled M bm off (concat (map snd bs))"
  by (induction bs arbitrary: off) (auto simp: relabelled_append)

lemma relabelled_blocks_fst: "map fst (relabelled_blocks M bm off bs) = map fst bs"
  by (induction bs arbitrary: off) auto

lemma relabelled_blocks_offset:
  "block_offset (relabelled_blocks M bm off bs) k = block_offset bs k"
proof (induction bs arbitrary: off k)
  case Nil
  then show ?case by (simp add: block_offset_def)
next
  case (Cons b bs)
  obtain l "is" where b: "b = (l, is)" by (cases b)
  show ?case
  proof (cases k)
    case 0
    then show ?thesis by (simp add: block_offset_def)
  next
    case (Suc k')
    have "sum_list (map c_size (relabelled M bm off is)) = sum_list (map c_size is)"
      by (simp add: relabelled_size)
    with Cons.IH[of "off + sum_list (map c_size is)" k'] Suc b show ?thesis
      by (simp add: block_offset_def)
  qed
qed

lemma relabel_blocks_returns:
  assumes "\<forall>d \<in> set (concat (map snd bs)). decoded_ok M d"
    and "\<forall>t \<in> raw_targets M off (map raw_of (concat (map snd bs))). bm t \<noteq> None"
  shows "relabel_blocks M bm off bs = Inr (relabelled_blocks M bm off bs)"
  using assms
proof (induction bs arbitrary: off)
  case Nil
  then show ?case by simp
next
  case (Cons b bs)
  obtain l "is" where b: "b = (l, is)" by (cases b)
  have ok1: "\<forall>d \<in> set is. decoded_ok M d" and ok2: "\<forall>d \<in> set (concat (map snd bs)). decoded_ok M d"
    using Cons.prems(1) b by auto
  have sz: "sum_list (map (raw_size \<circ> raw_of) is) = sum_list (map c_size is)"
    using ok1 by (induction "is") (auto simp: decoded_size)
  from Cons.prems(2) b have k1: "\<forall>t \<in> raw_targets M off (map raw_of is). bm t \<noteq> None"
    and k2: "\<forall>t \<in> raw_targets M (off + sum_list (map c_size is)) (map raw_of (concat (map snd bs))). bm t \<noteq> None"
    by (auto simp: raw_targets_append sz)
  from relabel_instrs_returns[OF ok1 k1] Cons.IH[OF ok2 k2] b show ?case by simp
qed

lemma relabelled_wf:
  assumes "\<forall>d \<in> set ds. decoded_ok M d"
  shows "\<forall>i \<in> set (relabelled M bm off ds). Instr_wf M i"
  using assms
proof (induction ds arbitrary: off)
  case Nil
  then show ?case by simp
next
  case (Cons d ds)
  have ok: "decoded_ok M d" using Cons.prems by simp
  have wf: "Instr_wf M d" using ok by (simp add: decoded_ok_def)
  have "Instr_wf M (case raw_target M off (raw_of d) of
        Some t \<Rightarrow> d\<lparr> c_arg := ArgLabel (case bm t of Some l \<Rightarrow> l | None \<Rightarrow> 0) \<rparr>
      | None \<Rightarrow> d)"
  proof (cases "raw_target M off (raw_of d)")
    case None
    with wf show ?thesis by simp
  next
    case (Some t)
    from decoded_replace_label[OF ok Some] Some show ?thesis
      by (auto simp: replace_arg_def dest: Instr_new_wf)
  qed
  with Cons show ?case by simp
qed

lemma raws_relabelled:
  assumes "\<forall>d \<in> set ds. decoded_ok M d"
    and "\<forall>t \<in> raw_targets M off (map raw_of ds). \<exists>l. bm t = Some l \<and> T l = Some (nat t)"
  shows "raws M T off (relabelled M bm off ds) = map raw_of ds"
  using assms
proof (induction ds arbitrary: off)
  case Nil
  then show ?case by simp
next
  case (Cons d ds)
  have ok: "decoded_ok M d" and oks: "\<forall>d \<in> set ds. decoded_ok M d" using Cons.prems(1) by simp_all
  have kn: "\<forall>t \<in> raw_targets M (off + c_size d) (map raw_of ds). \<exists>l. bm t = Some l \<and> T l = Some (nat t)"
    using Cons.prems(2) decoded_size[OF ok] by simp
  note IH = Cons.IH[OF oks kn]
  from ok have sz: "c_size d = (if c_arg d \<noteq> ArgNone then 3 else 1)"
    and enc: "encodable (c_op d, c_arg d)"
    by (auto simp: decoded_ok_def raw_ok_def raw_of_def dest!: Instr_wf_fields)
  show ?case
  proof (cases "raw_target M off (raw_of d)")
    case None
    have "resolved_arg M T off d = c_arg d"
      using enc by (cases "c_arg d") (auto simp: resolved_arg_def encodable_def)
    with None IH show ?thesis by (simp add: raw_of_def)
  next
    case (Some t)
    with Cons.prems(2) obtain l where l: "bm t = Some l" "T l = Some (nat t)" by auto
    from Some obtain n where n: "c_arg d = ArgInt n"
      by (auto simp: raw_target_def raw_of_def split: arg.splits)
    with enc have n0: "0 \<le> n" by (simp add: encodable_def)
    have "resolved_arg M T off (d\<lparr> c_arg := ArgLabel l \<rparr>) = ArgInt n"
      using Some n n0 l sz
      by (auto simp: resolved_arg_def raw_target_def raw_of_def split: if_splits)
    with Some l n IH show ?thesis by (simp add: raw_of_def)
  qed
qed

lemma raws_size:
  "\<forall>i \<in> set is. Instr_wf M i \<Longrightarrow> map raw_size (raws M T off is) = map c_size is"
proof (induction "is" arbitrary: off)
  case Nil
  then show ?case by simp
next
  case (Cons i "is")
  from Cons.prems have "c_size i = (if c_arg i \<noteq> ArgNone then 3 else 1)"
    by (auto dest!: Instr_wf_fields)
  moreover have "resolved_arg M T off i \<noteq> ArgNone \<longleftrightarrow> c_arg i \<noteq> ArgNone"
    by (cases "c_arg i") (auto simp: resolved_arg_def split: option.splits)
  ultimately show ?case using Cons by (simp add: raw_size_def)
qed

lemma raws_ok:
  assumes "\<forall>i \<in> set is. instr_valid M i" and "\<forall>r \<in> set (raws M T off is). encodable r"
  shows "\<forall>r \<in> set (raws M T off is). raw_ok M r"
  using assms
proof (induction "is" arbitrary: off)
  case Nil
  then show ?case by simp
next
  case (Cons i "is")
  from Cons.prems(1) have v: "instr_valid M i" by simp
  have na: "resolved_arg M T off i = ArgNone \<longleftrightarrow> c_arg i = ArgNone"
    by (cases "c_arg i") (auto simp: resolved_arg_def split: option.splits)
  have "raw_ok M (c_op i, resolved_arg M T off i)"
    using v Cons.prems(2) na
    by (auto simp: raw_ok_def instr_valid_def is_jump_def)
  moreover have "\<forall>r \<in> set (raws M T (off + c_size i) is). raw_ok M r"
    using Cons.IH[of "off + c_size i"] Cons.prems by simp
  ultimately show ?case by simp
qed

lemma raws_targets:
  assumes "\<forall>i \<in> set is. Instr_wf M i \<and> (is_jump M i \<longrightarrow> (\<exists>l t. c_arg i = ArgLabel l \<and> T l = Some t \<and> P (int t)))"
  shows "\<forall>t \<in> raw_targets M off (raws M T off is). P t"
  using assms
proof (induction "is" arbitrary: off)
  case Nil
  then show ?case by simp
next
  case (Cons i "is")
  from Cons.prems have wf: "Instr_wf M i"
    and j: "is_jump M i \<longrightarrow> (\<exists>l t. c_arg i = ArgLabel l \<and> T l = Some t \<and> P (int t))" by simp_all
  from wf have sz: "c_size i = (if c_arg i \<noteq> ArgNone then 3 else 1)" by (auto dest!: Instr_wf_fields)
  have rs: "raw_size (c_op i, resolved_arg M T off i) = c_size i"
    using raws_size[of "[i]" M T off] wf by simp
  have "\<forall>t. raw_target M off (c_op i, resolved_arg M T off i) = Some t \<longrightarrow> P t"
  proof (intro allI impI)
    fix t assume t: "raw_target M off (c_op i, resolved_arg M T off i) = Some t"
    then have "is_jump M i" by (auto simp: raw_target_def is_jump_def split: arg.splits if_splits)
    with j obtain l t0 where l: "c_arg i = ArgLabel l" "T l = Some t0" "P (int t0)" by blast
    with t sz have "t = int t0"
      by (auto simp: raw_target_def resolved_arg_def split: if_splits)
    with l show "P t" by simp
  qed
  moreover from Cons.IH[of "off + c_size i"] Cons.prems
  have "\<forall>t \<in> raw_targets M (off + c_size i) (raws M T (off + c_size i) is). P t" by simp
  ultimately show ?case using rs by (auto split: option.splits)
qed

lemma block_offset_is_instr_offset:
  assumes "k \<le> length bs"
  shows "block_offset bs k = instr_offset (concat (map snd bs)) (length (concat (map snd (take k bs))))"
proof -
  have "concat (map snd bs) = concat (map snd (take k bs)) @ concat (map snd (drop k bs))"
    by (metis append_take_drop_id concat_append map_append)
  then show ?thesis by (simp add: block_offset_def instr_offset_def)
qed

lemma instr_offset_total: "length is \<le> m \<Longrightarrow> instr_offset is m = sum_list (map c_size is)"
  by (simp add: instr_offset_def)

lemma block_offset_start:
  assumes "k \<le> length bs" and "block_offset bs k < sum_list (map c_size (concat (map snd bs)))"
  shows "\<exists>m < length (concat (map snd bs)). block_offset bs k = instr_offset (concat (map snd bs)) m"
proof -
  let ?m = "length (concat (map snd (take k bs)))"
  have e: "block_offset bs k = instr_offset (concat (map snd bs)) ?m"
    by (rule block_offset_is_instr_offset[OF assms(1)])
  have "?m < length (concat (map snd bs))"
  proof (rule ccontr)
    assume "\<not> ?m < length (concat (map snd bs))"
    then have "instr_offset (concat (map snd bs)) ?m = sum_list (map c_size (concat (map snd bs)))"
      by (simp add: instr_offset_total)
    with e assms(2) show False by simp
  qed
  with e show ?thesis by blast
qed

lemma instr_offset_cong:
  "map c_size xs = map c_size ys \<Longrightarrow> instr_offset xs m = instr_offset ys m"
  by (simp add: instr_offset_def take_map[symmetric])

text \<open>
  Claim C1. For a valid graph that \<open>assemble\<close> accepts, \<open>disassemble\<close> returns a graph
  for the assembled code object, \<open>assemble\<close> accepts that graph, and its bytes are the
  bytes of the first assembly.
\<close>

theorem assemble_disassemble_assemble:
  assumes v: "valid_graph M (Code_iter c)" and a: "Code_assemble M c = Inr out"
  shows "\<exists>c'. Code_disassemble M out = Inr c'
           \<and> (\<exists>out'. Code_assemble M c' = Inr out' \<and> co_code out' = co_code out)"
proof -
  let ?bs = "Code_iter c"
  let ?flat = "concat (map snd ?bs)"
  let ?T = "find_targets ?bs 0 Map.empty"
  let ?total = "sum_list (map c_size ?flat)"
  from v have vi: "\<forall>i \<in> set ?flat. instr_valid M i"
    and vj: "\<forall>i \<in> set ?flat. is_jump M i \<longrightarrow>
              (\<exists>k < length ?bs. c_arg i = ArgLabel (fst (?bs ! k)) \<and> block_offset ?bs k < ?total)"
    and dist: "distinct (map fst ?bs)" and ne: "?flat \<noteq> []"
    by (auto simp: valid_graph_def)
  from vi have wf: "\<forall>i \<in> set ?flat. Instr_wf M i" by (simp add: instr_valid_def)
  from a obtain chunks lns off' where
    as: "assemble_instrs M ?T 0 ?flat = Inr (chunks, lns, off')" and
    code: "co_code out = concat chunks"
    by (auto simp: Code_assemble_def assemble_block_list_def Let_def assemble_blocks_flat
        split: sum.splits prod.splits)
  define rs where "rs = raws M ?T 0 ?flat"
  from as assemble_instrs_iff[OF wf, of ?T 0 chunks lns off'] have
    enc: "\<forall>r \<in> set rs. encodable r" and ch: "chunks = map encode rs"
    by (simp_all add: rs_def)
  have ok: "\<forall>r \<in> set rs. raw_ok M r"
    unfolding rs_def by (rule raws_ok[OF vi]) (use enc rs_def in simp)
  define P where "P = (\<lambda>t. \<exists>m < length ?flat. t = int (instr_offset ?flat m))"
  have tg: "\<forall>t \<in> raw_targets M 0 rs. P t"
    unfolding rs_def
  proof (rule raws_targets, intro ballI conjI impI)
    fix i assume i: "i \<in> set ?flat"
    then show "Instr_wf M i" using wf by blast
    assume "is_jump M i"
    with vj i obtain k where k: "k < length ?bs" "c_arg i = ArgLabel (fst (?bs ! k))"
      "block_offset ?bs k < ?total" by blast
    from find_targets_distinct[OF dist k(1), of 0 Map.empty]
    have T: "?T (fst (?bs ! k)) = Some (block_offset ?bs k)" by simp
    from block_offset_start[of k ?bs] k have "P (int (block_offset ?bs k))"
      by (auto simp: P_def)
    with k T show "\<exists>l t. c_arg i = ArgLabel l \<and> ?T l = Some t \<and> P (int t)" by blast
  qed
  let ?ls = "map_of (rev (findlinestarts M out))"
  have "drop 0 (co_code out) = concat (map encode rs)" using code ch by simp
  from scan_encoded[OF this ok, of ?ls "co_firstlineno out"] obtain ds where
    sc: "scan M ?ls (co_code out) 0 (co_firstlineno out) = Inr (ds, raw_targets M 0 rs)"
    and m: "map raw_of ds = rs" and wfd: "\<forall>i \<in> set ds. Instr_wf M i" by blast
  have dok: "\<forall>d \<in> set ds. decoded_ok M d"
  proof
    fix d assume d: "d \<in> set ds"
    then have "raw_of d \<in> set rs" using m by auto
    with ok wfd d show "decoded_ok M d" by (simp add: decoded_ok_def)
  qed
  have "map c_size ds = map (raw_size \<circ> raw_of) ds"
    using dok by (auto simp: decoded_size)
  also have "\<dots> = map raw_size rs" using m by auto
  also have "\<dots> = map c_size ?flat" unfolding rs_def by (rule raws_size[OF wf])
  finally have sizes: "map c_size ds = map c_size ?flat" .
  then have len: "length ds = length ?flat" by (rule map_eq_imp_length_eq)
  with ne have dne: "ds \<noteq> []" by (metis length_0_conv)
  obtain bs0 bm where
    sp: "split_blocks (raw_targets M 0 rs) ds 0 [(0, [])] [0 \<mapsto> 0] = (bs0, bm)"
    by (cases "split_blocks (raw_targets M 0 rs) ds 0 [(0, [])] [0 \<mapsto> 0]")
  from split_blocks_inv[OF split_inv_init sp] dne have
    inv: "split_inv bs0 bm (sum_list (map c_size ds))"
    and cc: "concat (map snd bs0) = ds"
    and mono: "\<forall>t. [0 \<mapsto> 0::nat] t \<noteq> None \<longrightarrow> bm t \<noteq> None"
    and ec: "\<forall>m < length ds. instr_offset ds m \<noteq> 0 \<and> int (instr_offset ds m) \<in> raw_targets M 0 rs
            \<longrightarrow> bm (int (instr_offset ds m)) \<noteq> None"
    and lne: "snd (last bs0) \<noteq> []"
    by simp_all
  have K1: "\<forall>t \<in> raw_targets M 0 rs. bm t \<noteq> None"
  proof
    fix t assume t: "t \<in> raw_targets M 0 rs"
    with tg obtain k where k: "k < length ?flat" "t = int (instr_offset ?flat k)"
      by (auto simp: P_def)
    from instr_offset_cong[OF sizes, of k] k have tk: "t = int (instr_offset ds k)" by simp
    show "bm t \<noteq> None"
    proof (cases "instr_offset ds k = 0")
      case True
      with tk mono show ?thesis by simp
    next
      case False
      from k(1) len have "k < length ds" by simp
      with ec have "instr_offset ds k \<noteq> 0 \<and> int (instr_offset ds k) \<in> raw_targets M 0 rs
            \<longrightarrow> bm (int (instr_offset ds k)) \<noteq> None" by blast
      with False t show ?thesis unfolding tk by blast
    qed
  qed
  define bs' where "bs' = relabelled_blocks M bm 0 bs0"
  have rl: "relabel_blocks M bm 0 bs0 = Inr bs'"
    unfolding bs'_def using dok K1 by (intro relabel_blocks_returns) (simp_all add: cc m)
  have dis: "disassemble_blocks M out = Inr bs'"
    using sc sp lne rl by (simp add: disassemble_blocks_def)
  from inv have lab0: "map fst bs0 = [0..<length bs0]"
    and bmk: "\<And>t l. bm t = Some l \<Longrightarrow> l < length bs0 \<and> t = int (block_offset bs0 l)"
    by (auto simp: split_inv_def)
  have lab: "map fst bs' = [0..<length bs0]"
    unfolding bs'_def by (simp add: relabelled_blocks_fst lab0)
  then have dist': "distinct (map fst bs')" by simp
  have len': "length bs' = length bs0" using lab by (metis length_map length_upt minus_nat.diff_0)
  have cd: "Code_disassemble M out = Inr (Code_init out bs')"
    using dis by (simp add: Code_disassemble_def)
  have it: "Code_iter (Code_init out bs') = bs'" by (rule Code_iter_Code_init[OF dist'])
  let ?T' = "find_targets bs' 0 Map.empty"
  let ?flat' = "concat (map snd bs')"
  have T': "\<And>l. l < length bs0 \<Longrightarrow> ?T' l = Some (block_offset bs0 l)"
  proof -
    fix l assume l: "l < length bs0"
    then have l': "l < length bs'" using len' by simp
    have "fst (bs' ! l) = l" using lab l l' by (metis nth_map nth_upt add.left_neutral)
    with find_targets_distinct[OF dist' l', of 0 Map.empty]
    show "?T' l = Some (block_offset bs0 l)"
      by (simp add: bs'_def relabelled_blocks_offset)
  qed
  have K: "\<forall>t \<in> raw_targets M 0 (map raw_of ds). \<exists>l. bm t = Some l \<and> ?T' l = Some (nat t)"
  proof
    fix t assume "t \<in> raw_targets M 0 (map raw_of ds)"
    with K1 m obtain l where l: "bm t = Some l" by auto
    from bmk[OF l] T'[of l] l show "\<exists>l. bm t = Some l \<and> ?T' l = Some (nat t)" by auto
  qed
  have fl: "?flat' = relabelled M bm 0 ds"
    unfolding bs'_def by (simp add: relabelled_blocks_concat cc)
  have rw: "raws M ?T' 0 ?flat' = rs"
    unfolding fl using raws_relabelled[OF dok K] m by simp
  have wf': "\<forall>i \<in> set ?flat'. Instr_wf M i"
    unfolding fl by (rule relabelled_wf[OF dok])
  have as2: "assemble_instrs M ?T' 0 ?flat'
      = Inr (map encode rs, linenos_of 0 ?flat', 0 + sum_list (map c_size ?flat'))"
    using assemble_instrs_iff[OF wf', of ?T' 0 "map encode rs" "linenos_of 0 ?flat'"
        "0 + sum_list (map c_size ?flat')"] rw enc by simp
  have small: "\<forall>i \<in> set ?flat'. c_size i \<le> 255"
  proof
    fix i assume "i \<in> set ?flat'"
    with wf' have "Instr_wf M i" by blast
    from Instr_wf_fields[OF this] show "c_size i \<le> 255" by (simp split: if_splits)
  qed
  from lnotab_loop_returns[OF small, of 0 0 "co_firstlineno out"] obtain tab where
    tab: "lnotab_loop 0 (co_firstlineno out) (linenos_of 0 ?flat') = Inr tab" by auto
  have "Code_assemble M (Code_init out bs')
      = Inr \<lparr> co_code = concat (map encode rs), co_firstlineno = co_firstlineno out,
              co_lnotab = concat tab \<rparr>"
    using as2 tab it
    by (simp add: Code_assemble_def assemble_block_list_def assemble_blocks_flat Code_init_def)
  with cd code ch show ?thesis by simp
qed

lemma loop_iter: "Code_iter loop_code =
       [(5, [\<lparr> c_lineno = 1, c_name = ''LOAD_CONST'', c_arg = ArgInt 1, c_size = 3, c_op = 100 \<rparr>,
             \<lparr> c_lineno = 1, c_name = ''POP_JUMP_IF_FALSE'', c_arg = ArgLabel 9, c_size = 3,
               c_op = 114 \<rparr>,
             \<lparr> c_lineno = 2, c_name = ''JUMP_FORWARD'', c_arg = ArgLabel 9, c_size = 3,
               c_op = 110 \<rparr>]),
        (9, [nop1\<lparr> c_lineno := 3 \<rparr>,
             \<lparr> c_lineno = 3, c_name = ''RETURN_VALUE'', c_arg = ArgNone, c_size = 1, c_op = 83 \<rparr>])]"
  by (simp add: Code_iter_def loop_code_def Code_init_def)

lemma loop_valid: "valid_graph (example_module False) (Code_iter loop_code)"
  unfolding loop_iter
  by (auto simp: valid_graph_def instr_valid_def Instr_wf_def Instr_new_def is_jump_def
      example_module_def example_opmap_def example_opname_def nop1_def block_offset_def
      intro: exI[of _ "Suc 0"])

lemma loop_asm: "Code_assemble (example_module False) loop_code
   = Inr \<lparr> co_code = [100, 1, 0, 114, 9, 0, 110, 0, 0, 9, 83], co_firstlineno = 1,
            co_lnotab = [3, 0, 3, 1, 3, 1, 1, 0] \<rparr>"
  by code_simp

theorem assemble_disassemble_assemble_witness:
  "valid_graph (example_module False) (Code_iter loop_code)
   \<and> Code_assemble (example_module False) loop_code
       = Inr \<lparr> co_code = [100, 1, 0, 114, 9, 0, 110, 0, 0, 9, 83], co_firstlineno = 1,
               co_lnotab = [3, 0, 3, 1, 3, 1, 1, 0] \<rparr>
   \<and> (\<exists>c'. Code_disassemble (example_module False)
              \<lparr> co_code = [100, 1, 0, 114, 9, 0, 110, 0, 0, 9, 83], co_firstlineno = 1,
                co_lnotab = [3, 0, 3, 1, 3, 1, 1, 0] \<rparr> = Inr c'
          \<and> (\<exists>out'. Code_assemble (example_module False) c' = Inr out'
                \<and> co_code out' = [100, 1, 0, 114, 9, 0, 110, 0, 0, 9, 83]))"
  using assemble_disassemble_assemble [OF loop_valid loop_asm] loop_valid loop_asm by simp

subsection \<open>Splitting a block named by its position\<close>

text \<open>At index 0 the label of the block at the position is returned and nothing changes.\<close>

lemma create_label_at_position_zero:
  assumes "0 \<le> k" and "nat k < length (blocks c)"
  shows "create_label c (ByIndex k) 0 = (Inr (blocks c ! nat k), c)"
  using assms by (simp add: create_label_def Let_def)

text \<open>
  Named by its position, a block of a graph with distinct block objects and an unused next
  label is split as intended: the prefix keeps the label, the suffix gets the new label and
  stands right behind it, and the other blocks are untouched.
\<close>

lemma create_label_at_position:
  assumes k: "k < length (blocks c)" and d: "distinct (blocks c)"
    and fresh: "next_label c \<notin> set (blocks c)"
    and body: "store c (blocks c ! k) = Some body"
    and i: "0 < i" "nat i < length body"
  shows "fst (create_label c (ByIndex (int k)) i) = Inr (next_label c)
     \<and> Code_iter (snd (create_label c (ByIndex (int k)) i))
         = take k (Code_iter c)
           @ [(blocks c ! k, take (nat i) body), (next_label c, drop (nat i) body)]
           @ drop (Suc k) (Code_iter c)"
proof -
  let ?b = "blocks c ! k"
  let ?l2 = "next_label c"
  let ?st = "(store c)(?l2 \<mapsto> drop (nat i) body, ?b \<mapsto> take (nat i) body)"
  let ?c' = "c\<lparr> blocks := take (Suc k) (blocks c) @ [?l2] @ drop (Suc k) (blocks c),
                  block_map := (block_map c)(?l2 \<mapsto> ?l2),
                  store := ?st,
                  next_label := Suc ?l2 \<rparr>"
  have r: "create_label c (ByIndex (int k)) i = (Inr ?l2, ?c')"
    using k body i by (simp add: create_label_def Let_def)
  have bl2: "?b \<noteq> ?l2" using fresh k by (metis nth_mem)
  have other: "\<And>x. x \<in> set (take k (blocks c)) \<union> set (drop (Suc k) (blocks c)) \<Longrightarrow> ?st x = store c x"
  proof -
    fix x assume x: "x \<in> set (take k (blocks c)) \<union> set (drop (Suc k) (blocks c))"
    have "x \<in> set (blocks c)" using x by (auto dest: in_set_takeD in_set_dropD)
    with fresh have 1: "x \<noteq> ?l2" by auto
    have "blocks c = take k (blocks c) @ ?b # drop (Suc k) (blocks c)"
      using k by (simp add: id_take_nth_drop)
    with d have "distinct (take k (blocks c) @ ?b # drop (Suc k) (blocks c))" by simp
    with x have 2: "x \<noteq> ?b" by auto
    from 1 2 show "?st x = store c x" by simp
  qed
  let ?f = "\<lambda>st l. (l, case st l of Some is \<Rightarrow> is | None \<Rightarrow> [])"
  have t: "map (?f ?st) (take k (blocks c)) = take k (Code_iter c)"
    using other by (simp add: Code_iter_def take_map)
  have dr: "map (?f ?st) (drop (Suc k) (blocks c)) = drop (Suc k) (Code_iter c)"
    using other by (simp add: Code_iter_def drop_map)
  have "take (Suc k) (blocks c) = take k (blocks c) @ [?b]"
    using k by (simp add: take_Suc_conv_app_nth)
  then have "Code_iter ?c' = map (?f ?st) (take k (blocks c)) @ [?f ?st ?b, ?f ?st ?l2]
      @ map (?f ?st) (drop (Suc k) (blocks c))"
    by (simp add: Code_iter_def)
  also have "\<dots> = take k (Code_iter c)
           @ [(?b, take (nat i) body), (?l2, drop (nat i) body)]
           @ drop (Suc k) (Code_iter c)"
    using t dr bl2 by simp
  finally show ?thesis using r by simp
qed

subsection \<open>Every decoded instruction is kept\<close>

lemma Instr_disassemble_decoded:
  "Instr_disassemble M ln code offset = Inr i \<Longrightarrow>
     offset < length code
     \<and> (code ! offset \<ge> HAVE_ARGUMENT M \<longrightarrow> offset + 2 < length code)
     \<and> c_name i = opname M (code ! offset)
     \<and> map_of (opmap M) (c_name i) = Some (c_op i)
     \<and> c_arg i = (if code ! offset \<ge> HAVE_ARGUMENT M
                  then ArgInt (int (code ! (offset + 1) + code ! (offset + 2) * 256))
                  else ArgNone)
     \<and> c_size i = (if code ! offset \<ge> HAVE_ARGUMENT M then 3 else 1)
     \<and> c_lineno i = ln \<and> Instr_wf M i"
proof -
  assume a: "Instr_disassemble M ln code offset = Inr i"
  then have "Instr_wf M i"
    by (auto simp: Instr_disassemble_def Let_def split: if_splits dest: Instr_new_wf)
  moreover from a have "offset < length code
     \<and> (code ! offset \<ge> HAVE_ARGUMENT M \<longrightarrow> offset + 2 < length code)
     \<and> c_name i = opname M (code ! offset)
     \<and> map_of (opmap M) (c_name i) = Some (c_op i)
     \<and> c_arg i = (if code ! offset \<ge> HAVE_ARGUMENT M
                  then ArgInt (int (code ! (offset + 1) + code ! (offset + 2) * 256))
                  else ArgNone)
     \<and> c_size i = (if code ! offset \<ge> HAVE_ARGUMENT M then 3 else 1)
     \<and> c_lineno i = ln"
    by (auto simp: Instr_disassemble_def Let_def split: if_splits dest!: Instr_new_fields)
  ultimately show ?thesis by blast
qed

lemma scan_step:
  assumes "scan M ls code offset ln = Inr (is, S)" and "offset < length code"
  shows "\<exists>instr0 instr rest S'. Instr_disassemble M ln code offset = Inr instr0
      \<and> Instr_new M (case ls offset of Some l \<Rightarrow> l | None \<Rightarrow> ln) (c_name instr0) (c_arg instr0) = Inr instr
      \<and> scan M ls code (offset + c_size instr) (c_lineno instr) = Inr (rest, S')
      \<and> is = instr # rest"
proof -
  from assms obtain instr0 where d: "Instr_disassemble M ln code offset = Inr instr0"
    by (simp add: scan.simps[of M ls code offset ln] split: sum.splits)
  from Instr_disassemble_decoded[OF d] have wf0: "Instr_wf M instr0" and l0: "c_lineno instr0 = ln"
    by simp_all
  from wf0 have op0: "map_of (opmap M) (c_name instr0) = Some (c_op instr0)"
    by (auto dest!: Instr_wf_fields)
  let ?ln1 = "case ls offset of Some l \<Rightarrow> l | None \<Rightarrow> ln"
  obtain instr where n: "Instr_new M ?ln1 (c_name instr0) (c_arg instr0) = Inr instr"
    using op0 by (simp add: Instr_new_def)
  have l1: "c_lineno instr = ?ln1" using Instr_new_fields[OF n] by simp
  have same: "ls offset = None \<Longrightarrow> instr = instr0"
    using n wf0 l0 by (simp add: Instr_wf_def)
  have c: "(case ls offset of
               Some ln' \<Rightarrow>
                 (case Instr_new M ln' (c_name instr0) (c_arg instr0) of
                    Inl e \<Rightarrow> Inl e
                  | Inr instr' \<Rightarrow> Inr (ln', instr'))
             | None \<Rightarrow> Inr (ln, instr0)) = Inr (?ln1, instr)"
    using n same by (auto split: option.splits)
  from assms d c obtain rest S' where
    "scan M ls code (offset + c_size instr) ?ln1 = Inr (rest, S')" "is = instr # rest"
    by (auto simp add: scan.simps[of M ls code offset ln] split: sum.splits prod.splits)
  with d n l1 show ?thesis by auto
qed

lemma scan_decoded_from:
  "scan M ls code offset ln = Inr (is, S) \<Longrightarrow>
     decoded_from M ls code offset ln is \<and> (\<forall>i \<in> set is. Instr_wf M i)"
proof (induction "is" arbitrary: offset ln S)
  case Nil
  show ?case
  proof (cases "offset < length code")
    case True
    from scan_step[OF Nil True] show ?thesis by auto
  next
    case False
    then show ?thesis by simp
  qed
next
  case (Cons i "is")
  have lt: "offset < length code"
  proof (rule ccontr)
    assume "\<not> offset < length code"
    with Cons.prems show False by (simp add: scan.simps[of M ls code offset ln])
  qed
  from scan_step[OF Cons.prems lt] obtain instr0 S' where
    d: "Instr_disassemble M ln code offset = Inr instr0"
    and n: "Instr_new M (case ls offset of Some l \<Rightarrow> l | None \<Rightarrow> ln) (c_name instr0) (c_arg instr0) = Inr i"
    and r: "scan M ls code (offset + c_size i) (c_lineno i) = Inr (is, S')" by auto
  note f0 = Instr_disassemble_decoded[OF d]
  note f1 = Instr_new_fields[OF n]
  from Cons.IH[OF r] f0 f1 Instr_new_wf[OF n] show ?case by auto
qed

lemma relabel_one:
  assumes wf: "Instr_wf M s" and t: "get_jump_target M s off = Inr (Some t)"
    and r: "replace_arg M s (ArgLabel l) = Inr g"
  shows "g = s\<lparr> c_arg := ArgLabel l \<rparr>"
proof -
  from Instr_wf_fields[OF wf] have sz: "c_size s = (if c_arg s \<noteq> ArgNone then 3 else 1)"
    and op: "map_of (opmap M) (c_name s) = Some (c_op s)" by simp_all
  from t have "c_arg s \<noteq> ArgNone"
    by (auto simp: get_jump_target_def split: arg.splits if_splits)
  with sz op r show ?thesis by (auto simp: replace_arg_def Instr_new_def)
qed

lemma relabel_instrs_step:
  assumes "relabel_instrs M bm off (s # ss) = Inr (gs, off')"
  shows "\<exists>target g gs'. get_jump_target M s off = Inr target
      \<and> (case target of None \<Rightarrow> g = s
           | Some t \<Rightarrow> (\<exists>l. bm t = Some l \<and> replace_arg M s (ArgLabel l) = Inr g))
      \<and> relabel_instrs M bm (off + c_size s) ss = Inr (gs', off') \<and> gs = g # gs'"
  using assms by (auto split: sum.splits option.splits)

lemma relabel_instrs_shape:
  assumes "\<forall>s \<in> set ss. Instr_wf M s" and "relabel_instrs M bm off ss = Inr (gs, off')"
  shows "map c_size gs = map c_size ss \<and> off' = off + sum_list (map c_size ss)"
  using assms
proof (induction ss arbitrary: off gs)
  case Nil
  then show ?case by simp
next
  case (Cons s ss)
  from relabel_instrs_step[OF Cons.prems(2)] obtain target g gs' where
    t: "get_jump_target M s off = Inr target"
    and g: "case target of None \<Rightarrow> g = s
           | Some t \<Rightarrow> (\<exists>l. bm t = Some l \<and> replace_arg M s (ArgLabel l) = Inr g)"
    and r: "relabel_instrs M bm (off + c_size s) ss = Inr (gs', off')" and e: "gs = g # gs'"
    by blast
  have wf: "Instr_wf M s" using Cons.prems(1) by simp
  have "c_size g = c_size s"
  proof (cases target)
    case None
    with g show ?thesis by simp
  next
    case (Some t')
    with g obtain l where "replace_arg M s (ArgLabel l) = Inr g" by auto
    from relabel_one[OF wf _ this] t Some show ?thesis by simp
  qed
  with Cons.IH[OF _ r] Cons.prems(1) e show ?case by simp
qed

lemma relabel_instrs_labelled:
  assumes "\<forall>t l. bm t = Some l \<longrightarrow> starts_at B l t"
    and "\<forall>s \<in> set ss. Instr_wf M s" and "relabel_instrs M bm off ss = Inr (gs, off')"
  shows "labelled_from M B off ss gs"
  using assms(2,3)
proof (induction ss arbitrary: off gs)
  case Nil
  then show ?case by simp
next
  case (Cons s ss)
  from relabel_instrs_step[OF Cons.prems(2)] obtain target g gs' where
    t: "get_jump_target M s off = Inr target"
    and g: "case target of None \<Rightarrow> g = s
           | Some t \<Rightarrow> (\<exists>l. bm t = Some l \<and> replace_arg M s (ArgLabel l) = Inr g)"
    and r: "relabel_instrs M bm (off + c_size s) ss = Inr (gs', off')" and e: "gs = g # gs'"
    by blast
  have wf: "Instr_wf M s" using Cons.prems(1) by simp
  have rest: "labelled_from M B (off + c_size s) ss gs'"
    using Cons.IH[OF _ r] Cons.prems(1) by simp
  show ?case
  proof (cases target)
    case None
    with g t rest e show ?thesis by simp
  next
    case (Some t')
    with g obtain l where l: "bm t' = Some l" "replace_arg M s (ArgLabel l) = Inr g" by auto
    from t Some have t': "get_jump_target M s off = Inr (Some t')" by simp
    from relabel_one[OF wf t' l(2)] have ge: "g = s\<lparr> c_arg := ArgLabel l \<rparr>" .
    from assms(1) l(1) have "starts_at B l t'" by blast
    with ge t' rest e show ?thesis by simp
  qed
qed

lemma labelled_from_append:
  assumes "labelled_from M B off ss1 gs1"
    and "labelled_from M B (off + sum_list (map c_size ss1)) ss2 gs2"
  shows "labelled_from M B off (ss1 @ ss2) (gs1 @ gs2)"
  using assms
proof (induction ss1 arbitrary: off gs1)
  case Nil
  then show ?case by simp
next
  case (Cons s ss1)
  from Cons.prems(1) obtain g gs1' where e: "gs1 = g # gs1'" by (cases gs1) auto
  with Cons.prems(1) have r: "labelled_from M B (off + c_size s) ss1 gs1'" by simp
  from Cons.prems(2) have "labelled_from M B (off + c_size s + sum_list (map c_size ss1)) ss2 gs2"
    by (simp add: add.assoc)
  from Cons.IH[OF r this] Cons.prems(1) e show ?case by simp
qed

lemma relabel_blocks_step:
  assumes "relabel_blocks M bm off ((l, ss) # bs0) = Inr bs"
  shows "\<exists>gs off' bs'. relabel_instrs M bm off ss = Inr (gs, off')
     \<and> relabel_blocks M bm off' bs0 = Inr bs' \<and> bs = (l, gs) # bs'"
  using assms by (auto split: sum.splits)

lemma relabel_blocks_shape:
  assumes "\<forall>s \<in> set (concat (map snd bs0)). Instr_wf M s"
    and "relabel_blocks M bm off bs0 = Inr bs"
  shows "map fst bs = map fst bs0
     \<and> map (\<lambda>b. map c_size (snd b)) bs = map (\<lambda>b. map c_size (snd b)) bs0"
  using assms
proof (induction bs0 arbitrary: off bs)
  case Nil
  then show ?case by simp
next
  case (Cons b bs0)
  obtain l ss where b: "b = (l, ss)" by (cases b)
  from relabel_blocks_step[OF Cons.prems(2)[unfolded b]] obtain gs off' bs' where
    r1: "relabel_instrs M bm off ss = Inr (gs, off')"
    and r2: "relabel_blocks M bm off' bs0 = Inr bs'" and e: "bs = (l, gs) # bs'" by blast
  have wf1: "\<forall>s \<in> set ss. Instr_wf M s" and wf2: "\<forall>s \<in> set (concat (map snd bs0)). Instr_wf M s"
    using Cons.prems(1) b by auto
  from relabel_instrs_shape[OF wf1 r1] Cons.IH[OF wf2 r2] b e show ?case by simp
qed

lemma relabel_blocks_labelled:
  assumes "\<forall>t l. bm t = Some l \<longrightarrow> starts_at B l t"
    and "\<forall>s \<in> set (concat (map snd bs0)). Instr_wf M s"
    and "relabel_blocks M bm off bs0 = Inr bs"
  shows "labelled_from M B off (concat (map snd bs0)) (concat (map snd bs))"
  using assms(2,3)
proof (induction bs0 arbitrary: off bs)
  case Nil
  then show ?case by simp
next
  case (Cons b bs0)
  obtain l ss where b: "b = (l, ss)" by (cases b)
  from relabel_blocks_step[OF Cons.prems(2)[unfolded b]] obtain gs off' bs' where
    r1: "relabel_instrs M bm off ss = Inr (gs, off')"
    and r2: "relabel_blocks M bm off' bs0 = Inr bs'" and e: "bs = (l, gs) # bs'" by blast
  have wf1: "\<forall>s \<in> set ss. Instr_wf M s" and wf2: "\<forall>s \<in> set (concat (map snd bs0)). Instr_wf M s"
    using Cons.prems(1) b by auto
  from relabel_instrs_shape[OF wf1 r1] have o: "off' = off + sum_list (map c_size ss)" by simp
  from relabel_instrs_labelled[OF assms(1) wf1 r1] have 1: "labelled_from M B off ss gs" .
  from Cons.IH[OF wf2 r2] o have
    2: "labelled_from M B (off + sum_list (map c_size ss)) (concat (map snd bs0)) (concat (map snd bs'))"
    by simp
  from labelled_from_append[OF 1 2] b e show ?case by simp
qed

lemma block_offset_shape:
  assumes "map (\<lambda>b. map c_size (snd b)) bs = map (\<lambda>b. map c_size (snd b)) bs0"
  shows "block_offset bs k = block_offset bs0 k"
proof -
  have "\<And>xs :: Block list. map c_size (concat (map snd xs)) = concat (map (\<lambda>b. map c_size (snd b)) xs)"
    by (simp add: map_concat comp_def)
  moreover have "map (\<lambda>b. map c_size (snd b)) (take k bs) = map (\<lambda>b. map c_size (snd b)) (take k bs0)"
    using assms by (simp add: take_map[symmetric])
  ultimately show ?thesis by (simp add: block_offset_def)
qed

lemma labelled_from_small:
  assumes "labelled_from M B off ss gs" and "\<forall>s \<in> set ss. operand_small s"
  shows "\<forall>g \<in> set gs. operand_small g"
  using assms
proof (induction ss arbitrary: off gs)
  case Nil
  then show ?case by simp
next
  case (Cons s ss)
  from Cons.prems(1) obtain g gs' where e: "gs = g # gs'" by (cases gs) auto
  with Cons.prems(1) have r: "labelled_from M B (off + c_size s) ss gs'" by simp
  from Cons.prems(1) e Cons.prems(2) have "operand_small g"
    by (auto simp: operand_small_def split: sum.splits option.splits arg.splits)
  with Cons.IH[OF r] Cons.prems(2) e show ?case by simp
qed

lemma decoded_from_small:
  assumes "decoded_from M ls code off ln ss" and "\<forall>b \<in> set code. b < 256"
  shows "\<forall>s \<in> set ss. operand_small s"
  using assms(1)
proof (induction ss arbitrary: off ln)
  case Nil
  then show ?case by simp
next
  case (Cons s ss)
  have "operand_small s"
  proof (cases "code ! off \<ge> HAVE_ARGUMENT M")
    case True
    with Cons.prems have l: "off + 2 < length code"
      and a: "c_arg s = ArgInt (int (code ! (off + 1) + code ! (off + 2) * 256))"
      unfolding decoded_from.simps by simp_all
    from l assms(2) have "code ! (off + 1) < 256" "code ! (off + 2) < 256" by simp_all
    with a show ?thesis by (simp add: operand_small_def)
  next
    case False
    with Cons.prems have "c_arg s = ArgNone" unfolding decoded_from.simps by simp
    then show ?thesis by (simp add: operand_small_def)
  qed
  moreover from Cons.prems have "decoded_from M ls code (off + c_size s) (c_lineno s) ss"
    unfolding decoded_from.simps by blast
  then have "\<forall>s \<in> set ss. operand_small s" by (rule Cons.IH)
  ultimately show ?case by simp
qed

text \<open>
  Claim C3, as the code has it. Nothing is merged. For a code object whose bytes
  \<open>disassemble\<close> accepts, the instructions of the graph are, in order and one for one, the
  instructions decoded each from its own bytes and the line table (so a prefix in the bytes
  is an instruction of the graph, with the two bytes after it as its operand), except that
  an instruction with a jump target carries the label of the block starting at the target
  in place of its operand; and every integer operand of the graph is in \<open>0..65535\<close>.
\<close>

theorem disassemble_keeps_each_instruction:
  assumes dis: "disassemble_blocks M co = Inr bs" and bytes: "\<forall>b \<in> set (co_code co). b < 256"
  shows "\<exists>instructions.
           decoded_from M (map_of (rev (findlinestarts M co))) (co_code co) 0 (co_firstlineno co)
             instructions
         \<and> labelled_from M bs 0 instructions (concat (map snd bs))
         \<and> (\<forall>g \<in> set (concat (map snd bs)). operand_small g)"
proof -
  let ?ls = "map_of (rev (findlinestarts M co))"
  from dis obtain instructions block_starts where
    s: "scan M ?ls (co_code co) 0 (co_firstlineno co) = Inr (instructions, block_starts)"
    by (auto simp: disassemble_blocks_def split: sum.splits)
  obtain bs0 bm where
    sp: "split_blocks block_starts instructions 0 [(0, [])] [0 \<mapsto> 0] = (bs0, bm)"
    by (cases "split_blocks block_starts instructions 0 [(0, [])] [0 \<mapsto> 0]")
  from dis s sp have r: "relabel_blocks M bm 0 bs0 = Inr bs"
    by (auto simp: disassemble_blocks_def split: if_splits)
  from scan_decoded_from[OF s] have
    dec: "decoded_from M ?ls (co_code co) 0 (co_firstlineno co) instructions"
    and wf: "\<forall>i \<in> set instructions. Instr_wf M i" by simp_all
  from split_blocks_inv[OF split_inv_init sp] have
    inv: "split_inv bs0 bm (0 + sum_list (map c_size instructions))"
    and cc: "concat (map snd bs0) = instructions" by simp_all
  from inv have lab0: "map fst bs0 = [0..<length bs0]"
    and bmk: "\<And>t l. bm t = Some l \<Longrightarrow> l < length bs0 \<and> t = int (block_offset bs0 l)"
    by (auto simp: split_inv_def)
  have wf0: "\<forall>s \<in> set (concat (map snd bs0)). Instr_wf M s" using wf cc by simp
  from relabel_blocks_shape[OF wf0 r] have
    fst: "map fst bs = map fst bs0"
    and shape: "map (\<lambda>b. map c_size (snd b)) bs = map (\<lambda>b. map c_size (snd b)) bs0" by simp_all
  from fst have len: "length bs = length bs0" by (rule map_eq_imp_length_eq)
  have A: "\<forall>t l. bm t = Some l \<longrightarrow> starts_at bs l t"
  proof (intro allI impI)
    fix t l assume h: "bm t = Some l"
    from bmk[OF h] have l: "l < length bs0" and t: "t = int (block_offset bs0 l)" by simp_all
    have "fst (bs ! l) = map fst bs ! l" using l len by simp
    also have "\<dots> = l" using fst lab0 l by simp
    finally have "fst (bs ! l) = l" .
    moreover have "int (block_offset bs l) = t" using t block_offset_shape[OF shape, of l] by simp
    ultimately show "starts_at bs l t" using l len by (auto simp: starts_at_def)
  qed
  from relabel_blocks_labelled[OF A wf0 r] cc have
    lf: "labelled_from M bs 0 instructions (concat (map snd bs))" by simp
  from decoded_from_small[OF dec bytes] have "\<forall>s \<in> set instructions. operand_small s" .
  from labelled_from_small[OF lf this] have "\<forall>g \<in> set (concat (map snd bs)). operand_small g" .
  with dec lf show ?thesis by blast
qed

lemma jump_bytes_blocks: "disassemble_blocks (example_module False) jump_bytes = Inr jump_graph"
  by code_simp

lemma jump_bytes_small: "\<forall>b \<in> set (co_code jump_bytes). b < 256"
  by (simp add: jump_bytes_def)

theorem disassemble_keeps_each_instruction_witness:
  "disassemble_blocks (example_module False) jump_bytes = Inr jump_graph
   \<and> list_all (\<lambda>b. b < 256) (co_code jump_bytes)
   \<and> (\<exists>instructions.
         decoded_from (example_module False)
           (map_of (rev (findlinestarts (example_module False) jump_bytes)))
           (co_code jump_bytes) 0 (co_firstlineno jump_bytes) instructions
         \<and> labelled_from (example_module False) jump_graph 0 instructions
             (concat (map snd jump_graph))
         \<and> list_all operand_small (concat (map snd jump_graph)))"
  using disassemble_keeps_each_instruction [OF jump_bytes_blocks jump_bytes_small]
    jump_bytes_blocks jump_bytes_small
  unfolding list_all_iff by blast

end
